theory Spec2Isabelle
  imports Complex_Main "HOL-Library.Word"
begin

section \<open>The PC speaker: PIT state machine, edge log, impulse synthesis, output stage\<close>

text \<open>
  A shallow embedding of \<^verbatim>\<open>src/hardware/pcspeaker.cpp\<close>. The global \<^verbatim>\<open>spkr\<close> struct and
  the two function-local statics (\<^verbatim>\<open>previous_output_level\<close> of \<^verbatim>\<open>AddDelayEntry\<close>,
  \<^verbatim>\<open>current_output_level\<close> of \<^verbatim>\<open>PCSPEAKER_CallBack\<close>) form one record that every
  operation takes and returns.

  Numbers: \<^verbatim>\<open>float\<close> is modelled by \<^typ>\<open>real\<close>, that is, with exact arithmetic and no
  rounding; \<^verbatim>\<open>int16_t\<close> and \<^verbatim>\<open>uint8_t\<close> are words; the \<^verbatim>\<open>uint32_t\<close> index arithmetic
  of \<^verbatim>\<open>add_impulse\<close> is written on \<^typ>\<open>nat\<close> with its wrap-around modulo \<open>2 ^ 32\<close>.
  \<^verbatim>\<open>PIC_TickIndex()\<close>, the position inside the running millisecond, is the argument
  \<open>newindex\<close> of each control call. \<^verbatim>\<open>PIT_TICK_RATE\<close> comes from a header that is not part
  of the sources at hand and is a parameter (\<open>tick_rate\<close>).

  The two \<^verbatim>\<open>while (passed > 0)\<close> loops of \<^verbatim>\<open>ForwardPIT\<close> need not terminate, so they are
  partial functions into \<^typ>\<open>'a option\<close> and \<open>None\<close> stands for a call that never returns.
  A failed \<^verbatim>\<open>assert\<close> is an error value.
\<close>

subsection \<open>Constants\<close>

type_synonym int16 = "16 word"
type_synonym uint8 = "8 word"
type_synonym uint16 = "16 word"

definition SPKR_ENTRIES :: nat where
  "SPKR_ENTRIES = 1024"

definition SPKR_POSITIVE_LEVEL :: int16 where
  "SPKR_POSITIVE_LEVEL = 20000"

definition SPKR_NEGATIVE_LEVEL :: int16 where
  "SPKR_NEGATIVE_LEVEL = - SPKR_POSITIVE_LEVEL"

definition SPKR_FILTER_QUALITY :: nat where
  "SPKR_FILTER_QUALITY = 100"

definition SPKR_OVERSAMPLING :: nat where
  "SPKR_OVERSAMPLING = 32"

definition SPKR_FILTER_WIDTH :: nat where
  "SPKR_FILTER_WIDTH = SPKR_FILTER_QUALITY * SPKR_OVERSAMPLING"

definition SPKR_HIGHPASS :: real where
  "SPKR_HIGHPASS = 999 / 1000"

definition ms_per_pit_tick :: "int \<Rightarrow> real" where
  "ms_per_pit_tick tick_rate = 1000 / of_int tick_rate"

text \<open>
  Modelled from the spec: \<^verbatim>\<open>MIN_AUDIO\<close> and \<^verbatim>\<open>MAX_AUDIO\<close> are declared in \<^verbatim>\<open>mixer.h\<close>, which
  is not among the sources; the spec calls them the representable PCM amplitude range of
  a signed 16-bit sample.
\<close>

definition MIN_AUDIO :: real where
  "MIN_AUDIO = - 32768"

definition MAX_AUDIO :: real where
  "MAX_AUDIO = 32767"

subsection \<open>State\<close>

record DelayEntry =
  index :: real
  output_level :: int16

definition DelayEntry_default :: DelayEntry where
  "DelayEntry_default = \<lparr>index = 0, output_level = SPKR_NEGATIVE_LEVEL\<rparr>"

text \<open>
  \<open>entries\<close> is the fixed array of \<^verbatim>\<open>SPKR_ENTRIES\<close> slots and \<open>used\<close> the number of
  slots in use; the mixer channel pointer and the two unused volume fields are left out.
\<close>

record spkr =
  output_buffer :: "real list"
  sampled_impulse :: "real list"
  pit_mode :: uint8
  rate :: int
  rate_as_float :: real
  rate_per_ms :: real
  pit_output_enabled :: bool
  pit_clock_gate_enabled :: bool
  pit_output_level :: int16
  pit_new_max :: real
  pit_new_half :: real
  pit_max :: real
  pit_half :: real
  pit_index :: real
  pit_mode1_waiting_for_counter :: bool
  pit_mode1_waiting_for_trigger :: bool
  pit_mode1_pending_max :: real
  pit_mode3_counting :: bool
  last_index :: real
  minimum_counter :: int
  entries :: "DelayEntry list"
  used :: nat
  previous_output_level :: int16
  current_output_level :: real

datatype error = AssertionFailed | CastOutOfRange

subsection \<open>The edge log\<close>

definition AddDelayEntry :: "real \<Rightarrow> int16 \<Rightarrow> spkr \<Rightarrow> spkr" where
  "AddDelayEntry idx new_output_level s =
     (if new_output_level = previous_output_level s then s
      else
        let s1 = s\<lparr>previous_output_level := new_output_level\<rparr> in
        if used s1 = SPKR_ENTRIES then s1
        else s1\<lparr>entries := (entries s1)[used s1 :=
                    \<lparr>index = idx, output_level = new_output_level\<rparr>],
                 used := used s1 + 1\<rparr>)"

definition AddPITOutput :: "real \<Rightarrow> spkr \<Rightarrow> spkr" where
  "AddPITOutput idx s =
     (if pit_output_enabled s then AddDelayEntry idx (pit_output_level s) s else s)"

subsection \<open>Forward advancement\<close>

text \<open>The loop of \<^verbatim>\<open>case 2\<close>; \<open>passed\<close> and \<open>delay_base\<close> are the locals of \<^verbatim>\<open>ForwardPIT\<close>.\<close>

partial_function (option) ForwardPIT_mode2 :: "real \<Rightarrow> real \<Rightarrow> spkr \<Rightarrow> spkr option" where
  "ForwardPIT_mode2 passed delay_base s =
     (if passed > 0 then
        (if pit_index s \<ge> pit_half s then
           (if pit_index s + passed \<ge> pit_max s then
              (let delay = pit_max s - pit_index s;
                   s1 = AddPITOutput (delay_base + delay)
                          (s\<lparr>pit_output_level := SPKR_NEGATIVE_LEVEL\<rparr>)
               in ForwardPIT_mode2 (passed - delay) (delay_base + delay)
                    (s1\<lparr>pit_index := 0\<rparr>))
            else Some (s\<lparr>pit_index := pit_index s + passed\<rparr>))
         else
           (if pit_index s + passed \<ge> pit_half s then
              (let delay = pit_half s - pit_index s;
                   s1 = AddPITOutput (delay_base + delay)
                          (s\<lparr>pit_output_level := SPKR_POSITIVE_LEVEL\<rparr>)
               in ForwardPIT_mode2 (passed - delay) (delay_base + delay)
                    (s1\<lparr>pit_index := pit_half s1\<rparr>))
            else Some (s\<lparr>pit_index := pit_index s + passed\<rparr>)))
      else Some s)"

text \<open>The loop of \<^verbatim>\<open>case 3\<close>, which reloads the period at every boundary it crosses.\<close>

partial_function (option) ForwardPIT_mode3 :: "real \<Rightarrow> real \<Rightarrow> spkr \<Rightarrow> spkr option" where
  "ForwardPIT_mode3 passed delay_base s =
     (if passed > 0 then
        (if pit_index s \<ge> pit_half s then
           (if pit_index s + passed \<ge> pit_max s then
              (let delay = pit_max s - pit_index s;
                   s1 = AddPITOutput (delay_base + delay)
                          (s\<lparr>pit_output_level := SPKR_POSITIVE_LEVEL\<rparr>)
               in ForwardPIT_mode3 (passed - delay) (delay_base + delay)
                    (s1\<lparr>pit_index := 0,
                        pit_half := pit_new_half s1,
                        pit_max := pit_new_max s1\<rparr>))
            else Some (s\<lparr>pit_index := pit_index s + passed\<rparr>))
         else
           (if pit_index s + passed \<ge> pit_half s then
              (let delay = pit_half s - pit_index s;
                   s1 = AddPITOutput (delay_base + delay)
                          (s\<lparr>pit_output_level := SPKR_NEGATIVE_LEVEL\<rparr>)
               in ForwardPIT_mode3 (passed - delay) (delay_base + delay)
                    (s1\<lparr>pit_index := pit_half s1,
                        pit_half := pit_new_half s1,
                        pit_max := pit_new_max s1\<rparr>))
            else Some (s\<lparr>pit_index := pit_index s + passed\<rparr>)))
      else Some s)"

text \<open>\<^verbatim>\<open>case 0\<close> and the counting part of \<^verbatim>\<open>case 1\<close> share their text in the source.\<close>

definition ForwardPIT_oneshot :: "bool \<Rightarrow> real \<Rightarrow> real \<Rightarrow> spkr \<Rightarrow> spkr" where
  "ForwardPIT_oneshot mode1 passed delay_base s =
     (if pit_index s \<ge> pit_max s then s
      else
        let s1 = s\<lparr>pit_index := pit_index s + passed\<rparr> in
        if pit_index s1 \<ge> pit_max s1 then
          let delay = delay_base + pit_max s1 - pit_index s1 + passed;
              s2 = AddPITOutput delay (s1\<lparr>pit_output_level := SPKR_POSITIVE_LEVEL\<rparr>)
          in if mode1 then s2\<lparr>pit_mode1_waiting_for_trigger := True\<rparr> else s2
        else s1)"

definition ForwardPIT_mode4 :: "real \<Rightarrow> real \<Rightarrow> spkr \<Rightarrow> spkr" where
  "ForwardPIT_mode4 passed delay_base s =
     (if pit_index s < pit_max s then
        (if pit_index s + passed \<ge> pit_max s then
           (let delay = pit_max s - pit_index s;
                s1 = AddPITOutput (delay_base + delay)
                       (s\<lparr>pit_output_level := SPKR_NEGATIVE_LEVEL\<rparr>)
            in s1\<lparr>pit_index := pit_max s1\<rparr>)
         else s\<lparr>pit_index := pit_index s + passed\<rparr>)
      else s)"

definition ForwardPIT :: "real \<Rightarrow> spkr \<Rightarrow> spkr option" where
  "ForwardPIT newindex s0 =
     (let passed = newindex - last_index s0;
          delay_base = last_index s0;
          s = s0\<lparr>last_index := newindex\<rparr>
      in if pit_mode s = 6 then Some s
         else if pit_mode s = 0 then Some (ForwardPIT_oneshot False passed delay_base s)
         else if pit_mode s = 1 then
           (if pit_mode1_waiting_for_counter s then Some s
            else if pit_mode1_waiting_for_trigger s then Some s
            else Some (ForwardPIT_oneshot True passed delay_base s))
         else if pit_mode s = 2 then ForwardPIT_mode2 passed delay_base s
         else if pit_mode s = 3 then
           (if \<not> pit_mode3_counting s then Some s
            else ForwardPIT_mode3 passed delay_base s)
         else if pit_mode s = 4 then Some (ForwardPIT_mode4 passed delay_base s)
         else Some s)"

subsection \<open>The control entry points\<close>

definition PCSPEAKER_SetPITControl :: "uint8 \<Rightarrow> real \<Rightarrow> spkr \<Rightarrow> spkr option" where
  "PCSPEAKER_SetPITControl mode newindex s0 =
     (case ForwardPIT newindex s0 of
        None \<Rightarrow> None
      | Some s \<Rightarrow>
          if mode = 1 then
            Some (AddPITOutput newindex
                    (s\<lparr>pit_mode := 1,
                       pit_mode1_waiting_for_counter := True,
                       pit_mode1_waiting_for_trigger := False,
                       pit_output_level := SPKR_POSITIVE_LEVEL\<rparr>))
          else if mode = 3 then
            Some (AddPITOutput newindex
                    (s\<lparr>pit_mode := 3,
                       pit_mode3_counting := False,
                       pit_output_level := SPKR_POSITIVE_LEVEL\<rparr>))
          else Some s)"

definition PCSPEAKER_SetCounter :: "int \<Rightarrow> int \<Rightarrow> uint8 \<Rightarrow> real \<Rightarrow> spkr \<Rightarrow> spkr option" where
  "PCSPEAKER_SetCounter tick_rate cntr mode newindex s0 =
     (let duration_of_count_ms = ms_per_pit_tick tick_rate * of_int cntr in
      case ForwardPIT newindex s0 of
        None \<Rightarrow> None
      | Some s \<Rightarrow>
          if mode = 0 then
            Some ((AddPITOutput newindex
                     (s\<lparr>pit_output_level := SPKR_NEGATIVE_LEVEL,
                        pit_index := 0,
                        pit_max := duration_of_count_ms\<rparr>))\<lparr>pit_mode := mode\<rparr>)
          else if mode = 1 then
            (let s1 = s\<lparr>pit_mode1_pending_max := duration_of_count_ms\<rparr>;
                 s2 = (if pit_mode1_waiting_for_counter s1
                       then s1\<lparr>pit_mode1_waiting_for_counter := False,
                               pit_mode1_waiting_for_trigger := True\<rparr>
                       else s1)
             in Some (s2\<lparr>pit_mode := mode\<rparr>))
          else if mode = 2 then
            Some ((AddPITOutput newindex
                     (s\<lparr>pit_index := 0,
                        pit_output_level := SPKR_NEGATIVE_LEVEL\<rparr>))
                   \<lparr>pit_half := ms_per_pit_tick tick_rate,
                    pit_max := duration_of_count_ms,
                    pit_mode := mode\<rparr>)
          else if mode = 3 then
            (if cntr < minimum_counter s then
               Some (AddPITOutput newindex
                       (s\<lparr>pit_output_level := SPKR_POSITIVE_LEVEL, pit_mode := 6\<rparr>))
             else
               let s1 = s\<lparr>pit_new_max := duration_of_count_ms\<rparr>;
                   s2 = s1\<lparr>pit_new_half := pit_new_max s1 / 2\<rparr>;
                   s3 = (if \<not> pit_mode3_counting s2 then
                           (let s4 = s2\<lparr>pit_index := 0,
                                       pit_max := pit_new_max s2,
                                       pit_half := pit_new_half s2\<rparr>
                            in if pit_clock_gate_enabled s4 then
                                 AddPITOutput newindex
                                   (s4\<lparr>pit_mode3_counting := True,
                                       pit_output_level := SPKR_POSITIVE_LEVEL\<rparr>)
                               else s4)
                         else s2)
               in Some (s3\<lparr>pit_mode := mode\<rparr>))
          else if mode = 4 then
            Some ((AddPITOutput newindex
                     (s\<lparr>pit_output_level := SPKR_POSITIVE_LEVEL\<rparr>))
                   \<lparr>pit_index := 0,
                    pit_max := duration_of_count_ms,
                    pit_mode := mode\<rparr>)
          else Some s)"

definition PCSPEAKER_SetType :: "bool \<Rightarrow> bool \<Rightarrow> real \<Rightarrow> spkr \<Rightarrow> spkr option" where
  "PCSPEAKER_SetType clock_gate_enabled output_enabled newindex s0 =
     (case ForwardPIT newindex s0 of
        None \<Rightarrow> None
      | Some s \<Rightarrow>
          let pit_trigger = (clock_gate_enabled \<and> \<not> pit_clock_gate_enabled s);
              s1 = s\<lparr>pit_clock_gate_enabled := clock_gate_enabled,
                     pit_output_enabled := output_enabled\<rparr>;
              s2 = (if pit_trigger then
                      (if pit_mode s1 = 1 then
                         (if pit_mode1_waiting_for_counter s1 then s1
                          else s1\<lparr>pit_output_level := SPKR_NEGATIVE_LEVEL,
                                  pit_index := 0,
                                  pit_max := pit_mode1_pending_max s1,
                                  pit_mode1_waiting_for_trigger := False\<rparr>)
                       else if pit_mode s1 = 3 then
                         s1\<lparr>pit_mode3_counting := True,
                             pit_new_half := pit_new_max s1 / 2,
                             pit_index := 0,
                             pit_max := pit_new_max s1,
                             pit_half := pit_new_max s1 / 2,
                             pit_output_level := SPKR_POSITIVE_LEVEL\<rparr>
                       else s1)
                    else if \<not> clock_gate_enabled then
                      (if pit_mode s1 = 1 then s1
                       else if pit_mode s1 = 3 then
                         s1\<lparr>pit_output_level := SPKR_POSITIVE_LEVEL,
                             pit_mode3_counting := False\<rparr>
                       else s1)
                    else s1)
          in if output_enabled
             then Some (AddDelayEntry newindex (pit_output_level s2) s2)
             else Some (AddDelayEntry newindex SPKR_NEGATIVE_LEVEL s2))"

subsection \<open>Impulse synthesis\<close>

text \<open>
  \<^verbatim>\<open>static_cast<uint32_t>\<close> of a float truncates and is defined only when the truncated
  value fits; \<^verbatim>\<open>static_cast<int16_t>\<close> likewise.
\<close>

definition float_to_uint32 :: "real \<Rightarrow> error + nat" where
  "float_to_uint32 x =
     (if - 1 < x \<and> x < 2 ^ 32 then Inr (nat \<lfloor>x\<rfloor>) else Inl CastOutOfRange)"

definition trunc :: "real \<Rightarrow> int" where
  "trunc x = (if 0 \<le> x then \<lfloor>x\<rfloor> else \<lceil>x\<rceil>)"

definition float_to_int16 :: "real \<Rightarrow> int16" where
  "float_to_int16 x = word_of_int (trunc x)"

text \<open>
  The integer sample offset and the kernel phase of an impulse at \<open>idx\<close>, as
  \<^verbatim>\<open>add_impulse\<close> computes them before its loop.
\<close>

definition impulse_position :: "real \<Rightarrow> real \<Rightarrow> error + nat \<times> nat" where
  "impulse_position rate_per_ms_val idx =
     (let samples_in_impulse = idx * rate_per_ms_val in
      case float_to_uint32 samples_in_impulse of
        Inl e \<Rightarrow> Inl e
      | Inr offset \<Rightarrow>
         (case float_to_uint32 (samples_in_impulse * real SPKR_OVERSAMPLING) of
            Inl e \<Rightarrow> Inl e
          | Inr p \<Rightarrow>
              let phase = p mod SPKR_OVERSAMPLING in
              if phase \<noteq> 0
              then Inr ((offset + 1) mod 2 ^ 32, SPKR_OVERSAMPLING - phase)
              else Inr (offset, phase)))"

text \<open>The loop over the taps, \<open>i\<close> running from its argument up to \<^verbatim>\<open>SPKR_FILTER_QUALITY\<close>.\<close>

function add_impulse_taps ::
  "nat \<Rightarrow> nat \<Rightarrow> nat \<Rightarrow> real \<Rightarrow> real list \<Rightarrow> real list \<Rightarrow> error + real list" where
  "add_impulse_taps i offset phase amplitude tbl buf =
     (if i < SPKR_FILTER_QUALITY then
        (if \<not> (offset + i) mod 2 ^ 32 < length buf then Inl AssertionFailed
         else if \<not> (phase + SPKR_OVERSAMPLING * i) mod 2 ^ 32 < SPKR_FILTER_WIDTH
         then Inl AssertionFailed
         else add_impulse_taps (i + 1) offset phase amplitude tbl
                (buf[(offset + i) mod 2 ^ 32 :=
                       buf ! ((offset + i) mod 2 ^ 32) +
                       amplitude * tbl ! ((phase + i * SPKR_OVERSAMPLING) mod 2 ^ 32)]))
      else Inr buf)"
  by pat_completeness auto
termination
  by (relation "measure (\<lambda>(i, offset, phase, amplitude, tbl, buf). SPKR_FILTER_QUALITY - i)")
     auto

declare add_impulse_taps.simps [simp del]

definition add_impulse :: "real \<Rightarrow> real \<Rightarrow> spkr \<Rightarrow> error + spkr" where
  "add_impulse idx amplitude s =
     (case impulse_position (rate_per_ms s) idx of
        Inl e \<Rightarrow> Inl e
      | Inr (offset, phase) \<Rightarrow>
         (case add_impulse_taps 0 offset phase amplitude (sampled_impulse s) (output_buffer s) of
            Inl e \<Rightarrow> Inl e
          | Inr buf \<Rightarrow> Inr (s\<lparr>output_buffer := buf\<rparr>)))"

subsection \<open>The output stage\<close>

definition clamp :: "real \<Rightarrow> real \<Rightarrow> real \<Rightarrow> real" where
  "clamp x lo hi = (if x < lo then lo else if hi < x then hi else x)"

definition check_cast_uint16 :: "int \<Rightarrow> error + nat" where
  "check_cast_uint16 n = (if 0 \<le> n \<and> n \<le> 65535 then Inr (nat n) else Inl CastOutOfRange)"

text \<open>The loop of the callback over the slots in use of the edge log.\<close>

fun add_impulses :: "DelayEntry list \<Rightarrow> spkr \<Rightarrow> error + spkr" where
  "add_impulses [] s = Inr s"
| "add_impulses (e # es) s =
     (case add_impulse (clamp (index e) 0 1) (real_of_int (sint (output_level e))) s of
        Inl err \<Rightarrow> Inl err
      | Inr s1 \<Rightarrow> add_impulses es s1)"

text \<open>
  The loop that consumes the buffer: \<open>cur\<close> is \<^verbatim>\<open>current_output_level\<close> and \<open>stream\<close>
  the samples written so far.
\<close>

function consume ::
  "nat \<Rightarrow> nat \<Rightarrow> real list \<Rightarrow> real \<Rightarrow> int16 list \<Rightarrow> error + real \<times> int16 list" where
  "consume i len buf cur stream =
     (if i < len then
        (let cur1 = cur + buf ! i in
         if \<not> (cur1 \<ge> MIN_AUDIO \<and> cur1 \<le> MAX_AUDIO) then Inl AssertionFailed
         else consume (i + 1) len buf (cur1 * SPKR_HIGHPASS) (stream @ [float_to_int16 cur1]))
      else Inr (cur, stream))"
  by pat_completeness auto
termination
  by (relation "measure (\<lambda>(i, len, buf, cur, stream). len - i)") auto

declare consume.simps [simp del]

text \<open>The loop that shifts the consumed samples out, and the loop that zeroes the tail.\<close>

function shift_out :: "nat \<Rightarrow> nat \<Rightarrow> real list \<Rightarrow> error + real list" where
  "shift_out i len buf =
     (if i < length buf then
        (if \<not> i - len < length buf then Inl AssertionFailed
         else if \<not> i < length buf then Inl AssertionFailed
         else shift_out (i + 1) len (buf[i - len := buf ! i]))
      else Inr buf)"
  by pat_completeness auto
termination
  by (relation "measure (\<lambda>(i, len, buf). length buf - i)") auto

declare shift_out.simps [simp del]

function zero_rest :: "nat \<Rightarrow> real list \<Rightarrow> real list" where
  "zero_rest i buf = (if i < length buf then zero_rest (i + 1) (buf[i := 0]) else buf)"
  by pat_completeness auto
termination
  by (relation "measure (\<lambda>(i, buf). length buf - i)") auto

declare zero_rest.simps [simp del]

text \<open>
  The callback returns the new state, the samples it wrote to \<^verbatim>\<open>mix_buffer\<close> through
  \<^verbatim>\<open>stream\<close>, in order, and the samples that \<^verbatim>\<open>AddSamples_m16(len, mix_buffer.data())\<close>
  hands to the mixer channel: the first \<open>len\<close> of \<^verbatim>\<open>mix_buffer\<close>, with \<open>len\<close> as it
  stands at that line.
\<close>

definition PCSPEAKER_CallBack ::
  "uint16 \<Rightarrow> spkr \<Rightarrow> (error + spkr \<times> int16 list \<times> int16 list) option" where
  "PCSPEAKER_CallBack len0 s0 =
     (case ForwardPIT 1 s0 of
        None \<Rightarrow> None
      | Some s1 \<Rightarrow>
          Some
            (let s2 = s1\<lparr>last_index := 0\<rparr> in
             case add_impulses (take (used s2) (entries s2)) s2 of
               Inl e \<Rightarrow> Inl e
             | Inr s3 \<Rightarrow>
                 let s4 = s3\<lparr>used := 0\<rparr>;
                     size = length (output_buffer s4);
                     zeros = (if unat len0 > size
                              then replicate (unat len0 - size) (0 :: int16) else [])
                 in (case (if unat len0 > size then check_cast_uint16 (int size)
                           else Inr (unat len0)) of
                       Inl e \<Rightarrow> Inl e
                     | Inr len \<Rightarrow>
                        (case consume 0 len (output_buffer s4) (current_output_level s4) zeros of
                           Inl e \<Rightarrow> Inl e
                         | Inr (cur, stream) \<Rightarrow>
                            (case shift_out len len (output_buffer s4) of
                               Inl e \<Rightarrow> Inl e
                             | Inr buf \<Rightarrow>
                                 Inr (s4\<lparr>output_buffer := zero_rest (length buf - len) buf,
                                         current_output_level := cur\<rparr>,
                                      stream, take len stream))))))"

subsection \<open>Start-up\<close>

text \<open>
  \<^verbatim>\<open>impulse\<close> is built from \<^verbatim>\<open>cosf\<close>; the properties below do not depend on the values
  of the kernel, so it is the parameter \<open>impulse\<close>. \<^verbatim>\<open>resize(n, 0.0f)\<close> keeps what is
  there and fills with zeros.
\<close>

definition init_interpolation :: "(real \<Rightarrow> real) \<Rightarrow> spkr \<Rightarrow> error + spkr" where
  "init_interpolation impulse s =
     (let s1 = s\<lparr>sampled_impulse :=
                   map (\<lambda>i. impulse (real i / (rate_as_float s * real SPKR_OVERSAMPLING)))
                     [0..<SPKR_FILTER_WIDTH]\<rparr>
      in case check_cast_uint16 (int SPKR_FILTER_QUALITY + rate s1 div 1000 + 1) of
           Inl e \<Rightarrow> Inl e
         | Inr output_buffer_length \<Rightarrow>
             Inr (s1\<lparr>output_buffer :=
                        take output_buffer_length (output_buffer s1) @
                        replicate (output_buffer_length - length (output_buffer s1)) 0\<rparr>))"

text \<open>The static initialiser of \<^verbatim>\<open>spkr\<close> and of the two function-local statics.\<close>

definition spkr_static :: spkr where
  "spkr_static =
     \<lparr>output_buffer = [], sampled_impulse = [], pit_mode = 0, rate = 0,
      rate_as_float = 0, rate_per_ms = 0,
      pit_output_enabled = False, pit_clock_gate_enabled = False,
      pit_output_level = SPKR_NEGATIVE_LEVEL,
      pit_new_max = 0, pit_new_half = 0, pit_max = 0, pit_half = 0, pit_index = 0,
      pit_mode1_waiting_for_counter = False, pit_mode1_waiting_for_trigger = False,
      pit_mode1_pending_max = 0, pit_mode3_counting = False,
      last_index = 0, minimum_counter = 0,
      entries = replicate SPKR_ENTRIES DelayEntry_default, used = 0,
      previous_output_level = SPKR_NEGATIVE_LEVEL, current_output_level = 0\<rparr>"

text \<open>
  The constructor of \<^verbatim>\<open>PCSPEAKER\<close> with the speaker enabled in the configuration;
  \<open>pcrate\<close> is the configured sample rate.
\<close>

definition PCSPEAKER :: "int \<Rightarrow> (real \<Rightarrow> real) \<Rightarrow> int \<Rightarrow> spkr \<Rightarrow> error + spkr" where
  "PCSPEAKER tick_rate impulse pcrate s0 =
     (let s1 = s0\<lparr>pit_output_enabled := False,
                   pit_clock_gate_enabled := False,
                   pit_mode1_waiting_for_trigger := True,
                   last_index := 0,
                   rate := max pcrate 8000\<rparr>;
          s2 = s1\<lparr>rate_as_float := of_int (rate s1)\<rparr>;
          s3 = s2\<lparr>rate_per_ms := rate_as_float s2 / 1000\<rparr>
      in case init_interpolation impulse s3 of
           Inl e \<Rightarrow> Inl e
         | Inr s4 \<Rightarrow>
             let s5 = s4\<lparr>pit_mode := 3,
                          pit_mode3_counting := False,
                          pit_output_level := SPKR_POSITIVE_LEVEL,
                          pit_max := ms_per_pit_tick tick_rate * 1320\<rparr>;
                 s6 = s5\<lparr>pit_half := pit_max s5 / 2\<rparr>;
                 s7 = s6\<lparr>pit_new_max := pit_max s6, pit_new_half := pit_half s6,
                          pit_index := 0\<rparr>
             in Inr (s7\<lparr>minimum_counter := 2 * tick_rate div rate s7, used := 0\<rparr>))"

subsection \<open>Vocabulary of the properties\<close>

text \<open>The edge log: the slots of \<open>entries\<close> in use.\<close>

definition edge_log :: "spkr \<Rightarrow> DelayEntry list" where
  "edge_log s = take (used s) (entries s)"

text \<open>
  Example states: the state after start-up at 8000 Hz, with \<^verbatim>\<open>PIT_TICK_RATE\<close> = 1193182 and
  a flat stand-in kernel, and states reached from it.
\<close>

definition power_on :: spkr where
  "power_on = (case PCSPEAKER 1193182 (\<lambda>t. 1 / 100) 8000 spkr_static of Inr s \<Rightarrow> s | Inl e \<Rightarrow> spkr_static)"

definition mode1_armed :: spkr where
  "mode1_armed = (case PCSPEAKER_SetPITControl 1 0 power_on of Some s \<Rightarrow> s | None \<Rightarrow> power_on)"

definition log_full :: spkr where
  "log_full = power_on\<lparr>used := SPKR_ENTRIES\<rparr>"

text \<open>The buffer after the taps \<open>i, \<dots>, SPKR_FILTER_QUALITY - 1\<close> of one impulse.\<close>

definition taps_added :: "nat \<Rightarrow> nat \<Rightarrow> nat \<Rightarrow> real \<Rightarrow> real list \<Rightarrow> real list \<Rightarrow> real list" where
  "taps_added i offset phase amplitude tbl buf =
     map (\<lambda>j. buf ! j +
               (if offset + i \<le> j \<and> j < offset + SPKR_FILTER_QUALITY
                then amplitude * tbl ! (phase + (j - offset) * SPKR_OVERSAMPLING) else 0))
       [0..<length buf]"

text \<open>The sizes that the constructor and \<^verbatim>\<open>init_interpolation\<close> establish.\<close>

definition sized :: "spkr \<Rightarrow> bool" where
  "sized s \<longleftrightarrow>
     8000 \<le> rate s \<and>
     rate_per_ms s = real_of_int (rate s) / 1000 \<and>
     length (output_buffer s) = SPKR_FILTER_QUALITY + nat (rate s div 1000) + 1 \<and>
     length (output_buffer s) \<le> 65535"

text \<open>The fields that forward advancement never writes.\<close>

definition static_part where
  "static_part s =
     (output_buffer s, sampled_impulse s, pit_mode s, rate s, rate_as_float s, rate_per_ms s,
      pit_output_enabled s, pit_clock_gate_enabled s, pit_new_max s, pit_new_half s,
      pit_mode1_waiting_for_counter s, pit_mode1_pending_max s, pit_mode3_counting s,
      minimum_counter s, current_output_level s, length (entries s))"

text \<open>
  The position, in steps of \<open>1 / SPKR_OVERSAMPLING\<close> of a sample, that an offset and a
  phase stand for: the phase counts back from the sample at \<open>offset\<close>.
\<close>

definition encoded_position :: "nat \<Rightarrow> nat \<Rightarrow> int" where
  "encoded_position offset phase = int offset * int SPKR_OVERSAMPLING - int phase"

text \<open>
  Following the words of the specification (``chosen by rounding to the nearest available
  phase''): the step nearest to the fractional sample offset.
\<close>

definition nearest_position :: "real \<Rightarrow> real \<Rightarrow> int" where
  "nearest_position rate_per_ms_val idx = round (idx * rate_per_ms_val * real SPKR_OVERSAMPLING)"

definition one_edge :: spkr where
  "one_edge = (case PCSPEAKER_SetType False True (1 / 2) power_on of
                 Some s \<Rightarrow> s | None \<Rightarrow> power_on)"

definition one_edge_rendered :: spkr where
  "one_edge_rendered = (case PCSPEAKER_CallBack 0 one_edge of
                          Some (Inr (s, written, handed)) \<Rightarrow> s | _ \<Rightarrow> one_edge)"

text \<open>A sequence of forward advances, to the times \<open>ts\<close> in turn.\<close>

fun forward_all :: "real list \<Rightarrow> spkr \<Rightarrow> spkr option" where
  "forward_all [] s = Some s"
| "forward_all (t # ts) s =
     (case ForwardPIT t s of None \<Rightarrow> None | Some s' \<Rightarrow> forward_all ts s')"

text \<open>The edge log is well formed: \<^verbatim>\<open>SPKR_ENTRIES\<close> slots, of which at most all are in use.\<close>

definition log_ok :: "spkr \<Rightarrow> bool" where
  "log_ok s \<longleftrightarrow> length (entries s) = SPKR_ENTRIES \<and> used s \<le> SPKR_ENTRIES"


definition square_running :: spkr where
  "square_running = (case PCSPEAKER_SetType True True 0 power_on of
                       Some s \<Rightarrow> s | None \<Rightarrow> power_on)"


definition square_at_35 :: spkr where
  "square_at_35 = (case ForwardPIT (3 / 5) square_running of
                     Some s \<Rightarrow> s | None \<Rightarrow> square_running)"

definition retuned :: spkr where
  "retuned = (case PCSPEAKER_SetCounter 1193182 600 3 (1 / 10) square_running of
                Some s \<Rightarrow> s | None \<Rightarrow> square_running)"

definition retuned_later :: spkr where
  "retuned_later = (case PCSPEAKER_SetType True True (14 / 25) retuned of
                      Some s \<Rightarrow> s | None \<Rightarrow> retuned)"

text \<open>
  Vocabulary for the square wave of mode 3. \<open>other_level\<close> is the level after an edge,
  and \<open>wave_edges t l h n\<close> are \<open>n\<close> edges of alternating level that start at time \<open>t\<close>
  with level \<open>l\<close> and lie \<open>h\<close> apart.
\<close>

definition other_level :: "int16 \<Rightarrow> int16" where
  "other_level l =
     (if l = SPKR_POSITIVE_LEVEL then SPKR_NEGATIVE_LEVEL else SPKR_POSITIVE_LEVEL)"

fun wave_edges :: "real \<Rightarrow> int16 \<Rightarrow> real \<Rightarrow> nat \<Rightarrow> DelayEntry list" where
  "wave_edges t l h 0 = []"
| "wave_edges t l h (Suc n) =
     \<lparr>index = t, output_level = l\<rparr> # wave_edges (t + h) (other_level l) h n"

text \<open>
  The speaker runs a square wave of the stable period \<open>P\<close>: mode 3 is counting with the
  clock gate and the output enabled, no other period is staged, the position in the
  period is in range, the output is high in the first half of the period and low in the
  second, and the last level offered to the edge log is the present one.
\<close>

definition square_wave :: "real \<Rightarrow> spkr \<Rightarrow> bool" where
  "square_wave P s \<longleftrightarrow>
     pit_mode s = 3 \<and> pit_clock_gate_enabled s \<and> pit_mode3_counting s \<and>
     pit_output_enabled s \<and>
     0 < P \<and> pit_max s = P \<and> pit_half s = P / 2 \<and>
     pit_new_max s = P \<and> pit_new_half s = P / 2 \<and>
     0 \<le> pit_index s \<and> pit_index s < P \<and>
     pit_output_level s =
       (if pit_index s < P / 2 then SPKR_POSITIVE_LEVEL else SPKR_NEGATIVE_LEVEL) \<and>
     previous_output_level s = pit_output_level s \<and>
     log_ok s"


text \<open>
  The period that the loop of the running mode steps through is positive: \<^verbatim>\<open>pit_max\<close> in
  mode 2, and in mode 3, while it counts, the staged period \<^verbatim>\<open>pit_new_max\<close> that the loop
  loads at the first boundary it crosses. The other modes have no loop.
\<close>

definition periods_ok :: "spkr \<Rightarrow> bool" where
  "periods_ok s \<longleftrightarrow>
     (pit_mode s = 2 \<longrightarrow> 0 < pit_max s) \<and>
     (pit_mode s = 3 \<and> pit_mode3_counting s \<longrightarrow> 0 < pit_new_max s)"

text \<open>
  A counter of 100, below the minimum, loaded in mode 3 at 0.2 ms while the power-on
  tone is in its high half; and a counter of 0 loaded in mode 2 after power-on.
\<close>

definition degraded_high :: spkr where
  "degraded_high = (case PCSPEAKER_SetCounter 1193182 100 3 (1 / 5) square_running of
                      Some s \<Rightarrow> s | None \<Rightarrow> square_running)"

definition zero_rate :: spkr where
  "zero_rate = (case PCSPEAKER_SetCounter 1193182 0 2 0 power_on of
                  Some s \<Rightarrow> s | None \<Rightarrow> power_on)"







section \<open>Basic facts\<close>

lemmas level_defs = SPKR_POSITIVE_LEVEL_def SPKR_NEGATIVE_LEVEL_def

lemma power_on_eq: "power_on = spkr_static\<lparr>
   output_buffer := replicate 109 0,
   sampled_impulse := replicate 3200 (1 / 100),
   pit_mode := 3, rate := 8000, rate_as_float := 8000, rate_per_ms := 8,
   pit_output_level := SPKR_POSITIVE_LEVEL,
   pit_new_max := 660000 / 596591, pit_new_half := 330000/596591,
   pit_max := 660000 / 596591, pit_half := 330000/596591,
   pit_mode1_waiting_for_trigger := True, minimum_counter := 298\<rparr>"
  by (simp add: power_on_def PCSPEAKER_def init_interpolation_def check_cast_uint16_def
    spkr_static_def SPKR_FILTER_QUALITY_def SPKR_FILTER_WIDTH_def SPKR_OVERSAMPLING_def
    ms_per_pit_tick_def Let_def map_replicate_const)

lemma AddDelayEntry_alt:
  "AddDelayEntry idx lvl s =
     s\<lparr>entries := (if lvl = previous_output_level s \<or> used s = SPKR_ENTRIES then entries s
                   else (entries s)[used s := \<lparr>index = idx, output_level = lvl\<rparr>]),
       used := (if lvl = previous_output_level s \<or> used s = SPKR_ENTRIES then used s
                else used s + 1),
       previous_output_level := lvl\<rparr>"
  by (simp add: AddDelayEntry_def Let_def)

lemma AddDelayEntry_same: "previous_output_level s = lvl \<Longrightarrow> AddDelayEntry idx lvl s = s"
  by (simp add: AddDelayEntry_def)

lemma add_impulse_frame:
  "add_impulse idx a s = Inr s' \<Longrightarrow> \<exists>buf. s' = s\<lparr>output_buffer := buf\<rparr>"
  by (auto simp: add_impulse_def split: sum.splits prod.splits)

lemma add_impulses_frame:
  "add_impulses es s = Inr s' \<Longrightarrow> \<exists>buf. s' = s\<lparr>output_buffer := buf\<rparr>"
proof (induction es arbitrary: s)
  case Nil
  then have "s' = s" by simp
  then show ?case by (intro exI [of _ "output_buffer s"]) simp
next
  case (Cons e es)
  from Cons.prems obtain s1 where
    a: "add_impulse (clamp (index e) 0 1) (real_of_int (sint (output_level e))) s = Inr s1"
    and b: "add_impulses es s1 = Inr s'"
    by (auto split: sum.splits)
  from add_impulse_frame [OF a] obtain b1 where "s1 = s\<lparr>output_buffer := b1\<rparr>" by blast
  moreover from Cons.IH [OF b] obtain b2 where "s' = s1\<lparr>output_buffer := b2\<rparr>" by blast
  ultimately have "s' = s\<lparr>output_buffer := b2\<rparr>" by simp
  then show ?case by blast
qed

lemma shift_out_zero: "shift_out i 0 buf = Inr buf"
proof (induction i "0::nat" buf rule: shift_out.induct)
  case (1 i buf)
  show ?case
  proof (cases "i < length buf")
    case True
    with 1 show ?thesis by (subst shift_out.simps) simp
  next
    case False
    then show ?thesis by (subst shift_out.simps) simp
  qed
qed

lemma zero_rest_end: "length buf \<le> i \<Longrightarrow> zero_rest i buf = buf"
  by (subst zero_rest.simps) simp

lemma consume_none: "consume i i buf cur stream = Inr (cur, stream)"
  by (subst consume.simps) simp

lemma ForwardPIT_power_on: "ForwardPIT t power_on = Some (power_on\<lparr>last_index := t\<rparr>)"
  by (simp add: ForwardPIT_def power_on_eq spkr_static_def Let_def)

lemma CallBack_0_power_on:
  "PCSPEAKER_CallBack 0 power_on = Some (Inr (power_on, [], []))"
  unfolding PCSPEAKER_CallBack_def ForwardPIT_power_on
  by (simp add: Let_def consume_none shift_out_zero zero_rest_end power_on_eq spkr_static_def)

lemma mode1_armed_eq:
  "mode1_armed = power_on\<lparr>pit_mode := 1, pit_mode1_waiting_for_counter := True,
     pit_mode1_waiting_for_trigger := False\<rparr>"
  by (simp add: mode1_armed_def PCSPEAKER_SetPITControl_def ForwardPIT_power_on AddPITOutput_def)
     (simp add: power_on_eq spkr_static_def)

lemma taps_added_length [simp]: "length (taps_added i offset phase a tbl buf) = length buf"
  by (simp add: taps_added_def)

lemma taps_added_done:
  "SPKR_FILTER_QUALITY \<le> i \<Longrightarrow> taps_added i offset phase a tbl buf = buf"
  by (auto simp: taps_added_def intro: nth_equalityI)

lemma taps_added_step:
  assumes "i < SPKR_FILTER_QUALITY" and "offset + i < length buf"
  shows "taps_added (i + 1) offset phase a tbl
           (buf[offset + i := buf ! (offset + i) + a * tbl ! (phase + i * SPKR_OVERSAMPLING)]) =
         taps_added i offset phase a tbl buf"
  using assms
  by (auto simp: taps_added_def nth_list_update intro!: nth_equalityI)

lemma add_impulse_taps_closed:
  assumes "offset + SPKR_FILTER_QUALITY \<le> length buf"
    and "length buf < 2 ^ 32"
    and "phase < SPKR_OVERSAMPLING"
  shows "add_impulse_taps i offset phase a tbl buf = Inr (taps_added i offset phase a tbl buf)"
  using assms
proof (induction i offset phase a tbl buf rule: add_impulse_taps.induct)
  case (1 i offset phase a tbl buf)
  show ?case
  proof (cases "i < SPKR_FILTER_QUALITY")
    case False
    then show ?thesis
      by (subst add_impulse_taps.simps) (simp add: taps_added_done)
  next
    case True
    from True "1.prems" have b: "offset + i < length buf" by simp
    with "1.prems" have m: "(offset + i) mod 4294967296 = offset + i" by simp
    from True "1.prems" have w': "phase + SPKR_OVERSAMPLING * i < SPKR_FILTER_WIDTH"
      by (simp add: SPKR_FILTER_WIDTH_def SPKR_FILTER_QUALITY_def SPKR_OVERSAMPLING_def)
    then have w: "(phase + SPKR_OVERSAMPLING * i) mod 4294967296 = phase + SPKR_OVERSAMPLING * i"
      by (simp add: SPKR_FILTER_WIDTH_def SPKR_FILTER_QUALITY_def SPKR_OVERSAMPLING_def)
    have w2: "(phase + i * SPKR_OVERSAMPLING) mod 4294967296 = phase + i * SPKR_OVERSAMPLING"
      using w by (simp add: mult.commute)
    let ?buf = "buf[offset + i := buf ! (offset + i) + a * tbl ! (phase + i * SPKR_OVERSAMPLING)]"
    have "add_impulse_taps (i + 1) offset phase a tbl ?buf =
        Inr (taps_added (i + 1) offset phase a tbl ?buf)"
      using "1.IH" True b m w w' w2 "1.prems" by simp
    then have ih: "add_impulse_taps (Suc i) offset phase a tbl ?buf =
        Inr (taps_added i offset phase a tbl buf)"
      using taps_added_step [OF True b, of phase a tbl] by simp
    show ?thesis
      by (subst add_impulse_taps.simps) (simp add: True b m w w' w2 ih)
  qed
qed

lemma floor_times_32_div: "\<lfloor>x * 32\<rfloor> div 32 = \<lfloor>x :: real\<rfloor>"
  using floor_divide_real_eq_div [of 32 "x * 32"] by simp

lemma impulse_position_closed:
  assumes "0 \<le> idx * r" and "idx * r * 32 < 2 ^ 32"
  shows "impulse_position r idx =
           Inr (if nat \<lfloor>idx * r * 32\<rfloor> mod 32 \<noteq> 0
                then (nat \<lfloor>idx * r\<rfloor> + 1, 32 - nat \<lfloor>idx * r * 32\<rfloor> mod 32)
                else (nat \<lfloor>idx * r\<rfloor>, 0))"
proof -
  let ?x = "idx * r"
  from assms have x: "?x < 2 ^ 32" by linarith
  have "real_of_int \<lfloor>?x\<rfloor> \<le> ?x" by simp
  with assms have "real_of_int \<lfloor>?x\<rfloor> * 32 < 2 ^ 32" by linarith
  then have "real_of_int \<lfloor>?x\<rfloor> < 134217728" by simp
  then have "\<lfloor>?x\<rfloor> < 134217728" by linarith
  then have n: "nat \<lfloor>?x\<rfloor> + 1 < 4294967296" by linarith
  from assms x n show ?thesis
    by (simp add: impulse_position_def float_to_uint32_def Let_def SPKR_OVERSAMPLING_def)
qed

lemma impulse_position_trunc:
  assumes "0 \<le> idx * r" and "idx * r * 32 < 2 ^ 32"
    and "impulse_position r idx = Inr (offset, phase)"
  shows "phase < SPKR_OVERSAMPLING"
    and "int offset * int SPKR_OVERSAMPLING - int phase = \<lfloor>idx * r * real SPKR_OVERSAMPLING\<rfloor>"
    and "offset \<le> nat \<lfloor>idx * r\<rfloor> + 1"
proof -
  let ?q = "\<lfloor>idx * r * 32\<rfloor>"
  from assms(1) have q0: "0 \<le> ?q" by simp
  have d: "?q div 32 = \<lfloor>idx * r\<rfloor>" by (rule floor_times_32_div)
  have e: "?q = 32 * (?q div 32) + ?q mod 32" by simp
  from q0 have m: "int (nat ?q mod 32) = ?q mod 32"
    by (simp add: nat_mod_distrib zmod_int)
  from assms(1) have f0: "0 \<le> \<lfloor>idx * r\<rfloor>" by simp
  from impulse_position_closed [OF assms(1,2)] assms(3)
  have c: "(offset, phase) = (if nat ?q mod 32 \<noteq> 0
                then (nat \<lfloor>idx * r\<rfloor> + 1, 32 - nat ?q mod 32)
                else (nat \<lfloor>idx * r\<rfloor>, 0))" by simp
  from c show "phase < SPKR_OVERSAMPLING"
    by (auto simp: SPKR_OVERSAMPLING_def split: if_splits)
  from c show "offset \<le> nat \<lfloor>idx * r\<rfloor> + 1"
    by (auto split: if_splits)
  show "int offset * int SPKR_OVERSAMPLING - int phase = \<lfloor>idx * r * real SPKR_OVERSAMPLING\<rfloor>"
  proof (cases "nat ?q mod 32 = 0")
    case True
    with c have "offset = nat \<lfloor>idx * r\<rfloor>" and "phase = 0" by simp_all
    moreover from True m have "?q mod 32 = 0" by simp
    ultimately show ?thesis using e d f0 by (simp add: SPKR_OVERSAMPLING_def)
  next
    case False
    with c have o: "offset = nat \<lfloor>idx * r\<rfloor> + 1" and p: "phase = 32 - nat ?q mod 32"
      by simp_all
    have "nat ?q mod 32 < 32" by simp
    then have "int phase = 32 - ?q mod 32" using p m by linarith
    with o e d f0 show ?thesis by (simp add: SPKR_OVERSAMPLING_def)
  qed
qed

lemma clamp_unit: "0 \<le> clamp x 0 1 \<and> clamp x 0 1 \<le> 1"
  by (simp add: clamp_def)

lemma sized_bounds:
  assumes "sized s" and "0 \<le> t" and "t \<le> 1"
  shows "0 \<le> t * rate_per_ms s"
    and "t * rate_per_ms s * 32 < 2 ^ 32"
    and "nat \<lfloor>t * rate_per_ms s\<rfloor> \<le> nat (rate s div 1000)"
proof -
  let ?r = "rate_per_ms s"
  from assms(1) have r: "?r = real_of_int (rate s) / real_of_int 1000"
    and r8: "8000 \<le> rate s"
    and len: "SPKR_FILTER_QUALITY + nat (rate s div 1000) + 1 \<le> 65535"
    by (simp_all add: sized_def)
  from r r8 have r0: "0 \<le> ?r" by simp
  with assms(2) show "0 \<le> t * ?r" by simp
  from assms(3) r0 have le: "t * ?r \<le> ?r"
    using mult_right_mono [of t 1 ?r] by simp
  have fr: "\<lfloor>?r\<rfloor> = rate s div 1000"
    unfolding r by (rule floor_divide_of_int_eq)
  from le have "\<lfloor>t * ?r\<rfloor> \<le> \<lfloor>?r\<rfloor>" by (rule floor_mono)
  with fr show "nat \<lfloor>t * ?r\<rfloor> \<le> nat (rate s div 1000)" by simp
  from len have "rate s div 1000 \<le> 65535" by linarith
  with fr have "\<lfloor>?r\<rfloor> \<le> 65535" by simp
  then have "?r < 65536" by (simp add: floor_le_iff)
  with le have "t * ?r < 65536" by linarith
  then show "t * ?r * 32 < 2 ^ 32" by simp
qed

lemma add_impulse_sized:
  assumes "sized s" and "0 \<le> t" and "t \<le> 1"
  shows "\<exists>offset phase.
           impulse_position (rate_per_ms s) t = Inr (offset, phase) \<and>
           phase < SPKR_OVERSAMPLING \<and>
           offset + SPKR_FILTER_QUALITY \<le> length (output_buffer s) \<and>
           add_impulse t a s =
             Inr (s\<lparr>output_buffer :=
                      taps_added 0 offset phase a (sampled_impulse s) (output_buffer s)\<rparr>)"
proof -
  note b = sized_bounds [OF assms]
  from impulse_position_closed [OF b(1,2)]
  obtain offset phase where ip: "impulse_position (rate_per_ms s) t = Inr (offset, phase)"
    by (cases "nat \<lfloor>t * rate_per_ms s * 32\<rfloor> mod 32 \<noteq> 0") simp_all
  note tr = impulse_position_trunc [OF b(1,2) ip]
  from assms(1) have len: "length (output_buffer s) = SPKR_FILTER_QUALITY + nat (rate s div 1000) + 1"
    and small: "length (output_buffer s) < 2 ^ 32"
    by (simp_all add: sized_def)
  from tr(3) b(3) len have fit: "offset + SPKR_FILTER_QUALITY \<le> length (output_buffer s)"
    by linarith
  from add_impulse_taps_closed [OF fit small tr(1)] ip
  have "add_impulse t a s =
      Inr (s\<lparr>output_buffer :=
               taps_added 0 offset phase a (sampled_impulse s) (output_buffer s)\<rparr>)"
    by (simp add: add_impulse_def)
  with ip tr(1) fit show ?thesis by blast
qed

lemma sized_output_buffer:
  "sized s \<Longrightarrow> length buf = length (output_buffer s) \<Longrightarrow> sized (s\<lparr>output_buffer := buf\<rparr>)"
  by (simp add: sized_def)

lemma add_impulses_sized:
  "sized s \<Longrightarrow> \<exists>s'. add_impulses es s = Inr s' \<and> sized s'"
proof (induction es arbitrary: s)
  case Nil
  then show ?case by simp
next
  case (Cons e es)
  let ?t = "clamp (index e) 0 1"
  let ?a = "real_of_int (sint (output_level e))"
  from add_impulse_sized [OF Cons.prems, of ?t ?a] clamp_unit [of "index e"]
  obtain offset phase where
    a: "add_impulse ?t ?a s =
          Inr (s\<lparr>output_buffer :=
                   taps_added 0 offset phase ?a (sampled_impulse s) (output_buffer s)\<rparr>)"
    by blast
  let ?s1 = "s\<lparr>output_buffer :=
                   taps_added 0 offset phase ?a (sampled_impulse s) (output_buffer s)\<rparr>"
  from Cons.prems have "sized ?s1" by (simp add: sized_output_buffer)
  from Cons.IH [OF this] a show ?case by simp
qed

lemma resize_length: "length (take n xs @ replicate (n - length xs) x) = n"
  by auto

lemma PCSPEAKER_sized:
  assumes "PCSPEAKER tick_rate impulse pcrate s0 = Inr s"
  shows "sized s"
proof -
  let ?rate = "max pcrate 8000"
  let ?n = "int SPKR_FILTER_QUALITY + ?rate div 1000 + 1"
  from assms have ok: "0 \<le> ?n \<and> ?n \<le> 65535"
    by (auto simp: PCSPEAKER_def init_interpolation_def check_cast_uint16_def Let_def
        split: sum.splits if_splits)
  from assms ok have r: "rate s = ?rate"
    and p: "rate_per_ms s = real_of_int ?rate / 1000"
    and b: "output_buffer s = take (nat ?n) (output_buffer s0) @
              replicate (nat ?n - length (output_buffer s0)) 0"
    by (auto simp: PCSPEAKER_def init_interpolation_def check_cast_uint16_def Let_def
        split: sum.splits if_splits)
  from b have l: "length (output_buffer s) = nat ?n"
    by (simp only: resize_length)
  have n: "nat ?n = SPKR_FILTER_QUALITY + nat (?rate div 1000) + 1"
    by (simp add: nat_add_distrib)
  from ok have "nat ?n \<le> 65535" by linarith
  with l n r p show ?thesis
    by (simp add: sized_def)
qed

lemma static_part_AddDelayEntry [simp]: "static_part (AddDelayEntry i l s) = static_part s"
  by (simp add: static_part_def AddDelayEntry_alt)

lemma static_part_AddPITOutput [simp]: "static_part (AddPITOutput i s) = static_part s"
  by (simp add: AddPITOutput_def)

lemma static_part_updates [simp]:
  "static_part (s\<lparr>pit_index := a\<rparr>) = static_part s"
  "static_part (s\<lparr>pit_output_level := l\<rparr>) = static_part s"
  "static_part (s\<lparr>pit_half := h\<rparr>) = static_part s"
  "static_part (s\<lparr>pit_max := m\<rparr>) = static_part s"
  "static_part (s\<lparr>last_index := t\<rparr>) = static_part s"
  "static_part (s\<lparr>pit_mode1_waiting_for_trigger := w\<rparr>) = static_part s"
  by (simp_all add: static_part_def)

lemmas ForwardPIT_mode2_induct = ForwardPIT_mode2.raw_induct [rotated, consumes 1, case_names step]
lemmas ForwardPIT_mode3_induct = ForwardPIT_mode3.raw_induct [rotated, consumes 1, case_names step]

lemma ForwardPIT_mode2_static:
  assumes "ForwardPIT_mode2 p b s = Some s'"
  shows "static_part s' = static_part s"
  using assms
proof (induct rule: ForwardPIT_mode2_induct)
  case (step f p b s s')
  from step(2) show ?case
    by (auto simp: Let_def dest!: step(1) split: if_splits)
qed

lemma ForwardPIT_mode3_static:
  assumes "ForwardPIT_mode3 p b s = Some s'"
  shows "static_part s' = static_part s"
  using assms
proof (induct rule: ForwardPIT_mode3_induct)
  case (step f p b s s')
  from step(2) show ?case
    by (auto simp: Let_def dest!: step(1) split: if_splits)
qed

lemma ForwardPIT_static:
  "ForwardPIT t s = Some s' \<Longrightarrow> static_part s' = static_part s"
  by (auto simp: ForwardPIT_def Let_def ForwardPIT_oneshot_def ForwardPIT_mode4_def
      dest!: ForwardPIT_mode2_static ForwardPIT_mode3_static split: if_splits)

lemma taps_added_nth:
  "j < length buf \<Longrightarrow>
   taps_added i offset phase a tbl buf ! j =
     buf ! j + (if offset + i \<le> j \<and> j < offset + SPKR_FILTER_QUALITY
                then a * tbl ! (phase + (j - offset) * SPKR_OVERSAMPLING) else 0)"
  by (simp add: taps_added_def)

lemma PCSPEAKER_power_on:
  "PCSPEAKER 1193182 (\<lambda>t. 1 / 100) 8000 spkr_static = Inr power_on"
  by (simp add: power_on_def PCSPEAKER_def init_interpolation_def check_cast_uint16_def
      SPKR_FILTER_QUALITY_def Let_def)

lemma sized_power_on: "sized power_on"
  using PCSPEAKER_power_on by (rule PCSPEAKER_sized)

lemma impulse_position_8_1: "impulse_position 8 1 = Inr (8, 0)"
  by (simp add: impulse_position_def float_to_uint32_def SPKR_OVERSAMPLING_def Let_def)

lemma edge_log_used_0 [simp]: "edge_log (s\<lparr>used := 0\<rparr>) = []"
  by (simp add: edge_log_def)

lemma CallBack_0:
  "PCSPEAKER_CallBack 0 s =
     (case ForwardPIT 1 s of
        None \<Rightarrow> None
      | Some s1 \<Rightarrow>
          Some (case add_impulses (edge_log s1) (s1\<lparr>last_index := 0\<rparr>) of
                  Inl e \<Rightarrow> Inl e
                | Inr s3 \<Rightarrow> Inr (s3\<lparr>used := 0\<rparr>, [], [])))"
  by (simp add: PCSPEAKER_CallBack_def Let_def consume_none shift_out_zero zero_rest_end
      edge_log_def split: option.splits sum.splits)

lemma one_edge_eq:
  "one_edge = power_on\<lparr>pit_output_enabled := True, last_index := 1 / 2,
      entries := (entries power_on)[0 := \<lparr>index = 1 / 2, output_level = SPKR_POSITIVE_LEVEL\<rparr>],
      used := 1, previous_output_level := SPKR_POSITIVE_LEVEL\<rparr>"
  unfolding one_edge_def PCSPEAKER_SetType_def ForwardPIT_power_on
  by (simp add: Let_def AddDelayEntry_def power_on_eq spkr_static_def level_defs SPKR_ENTRIES_def)

lemma ForwardPIT_one_edge: "ForwardPIT t one_edge = Some (one_edge\<lparr>last_index := t\<rparr>)"
  by (simp add: ForwardPIT_def one_edge_eq power_on_eq spkr_static_def Let_def)

lemma edge_log_one_edge:
  "edge_log one_edge = [\<lparr>index = 1 / 2, output_level = SPKR_POSITIVE_LEVEL\<rparr>]"
  by (simp add: edge_log_def one_edge_eq power_on_eq spkr_static_def SPKR_ENTRIES_def
      take_Suc_conv_app_nth)

lemma add_impulse_one_edge:
  "add_impulse (1 / 2) 20000 (one_edge\<lparr>last_index := 0\<rparr>) =
     Inr (one_edge\<lparr>last_index := 0,
            output_buffer := taps_added 0 4 0 20000 (replicate 3200 (1 / 100)) (replicate 109 0)\<rparr>)"
proof -
  have ip: "impulse_position 8 (1 / 2) = Inr (4, 0)"
    by (simp add: impulse_position_def float_to_uint32_def SPKR_OVERSAMPLING_def Let_def)
  have "add_impulse_taps 0 4 0 20000 (replicate 3200 (1 / 100)) (replicate 109 0) =
      Inr (taps_added 0 4 0 20000 (replicate 3200 (1 / 100)) (replicate 109 0))"
    by (rule add_impulse_taps_closed)
       (simp_all add: SPKR_FILTER_QUALITY_def SPKR_OVERSAMPLING_def)
  with ip show ?thesis
    by (simp add: add_impulse_def one_edge_eq power_on_eq)
qed

lemma edge_log_last_index [simp]: "edge_log (s\<lparr>last_index := t\<rparr>) = edge_log s"
  by (simp add: edge_log_def)

lemma CallBack_0_one_edge:
  "PCSPEAKER_CallBack 0 one_edge =
     Some (Inr (one_edge\<lparr>last_index := 0, used := 0,
                  output_buffer :=
                    taps_added 0 4 0 20000 (replicate 3200 (1 / 100)) (replicate 109 0)\<rparr>,
                [], []))"
proof -
  have c: "clamp (1 / 2) 0 1 = 1 / 2" by (simp add: clamp_def)
  have "sint SPKR_POSITIVE_LEVEL = 20000" by (simp add: level_defs)
  then show ?thesis
    by (simp add: CallBack_0 ForwardPIT_one_edge edge_log_one_edge c add_impulse_one_edge)
qed

lemma log_ok_AddDelayEntry [simp]: "log_ok s \<Longrightarrow> log_ok (AddDelayEntry i l s)"
  by (auto simp: log_ok_def AddDelayEntry_alt)

lemma log_ok_AddPITOutput [simp]: "log_ok s \<Longrightarrow> log_ok (AddPITOutput i s)"
  by (simp add: AddPITOutput_def)

lemma log_ok_updates [simp]:
  "log_ok (s\<lparr>pit_index := a\<rparr>) = log_ok s"
  "log_ok (s\<lparr>pit_output_level := l\<rparr>) = log_ok s"
  "log_ok (s\<lparr>pit_half := h\<rparr>) = log_ok s"
  "log_ok (s\<lparr>pit_max := m\<rparr>) = log_ok s"
  "log_ok (s\<lparr>last_index := t\<rparr>) = log_ok s"
  "log_ok (s\<lparr>pit_mode1_waiting_for_trigger := w\<rparr>) = log_ok s"
  "log_ok (s\<lparr>pit_mode := md\<rparr>) = log_ok s"
  by (simp_all add: log_ok_def)

lemma ForwardPIT_mode2_log_ok:
  assumes "ForwardPIT_mode2 p b s = Some s'"
  shows "log_ok s \<Longrightarrow> log_ok s'"
  using assms
proof (induct rule: ForwardPIT_mode2_induct)
  case (step f p b s s')
  from step(2,3) show ?case
    by (auto simp: Let_def dest!: step(1) split: if_splits)
qed

lemma ForwardPIT_mode3_log_ok:
  assumes "ForwardPIT_mode3 p b s = Some s'"
  shows "log_ok s \<Longrightarrow> log_ok s'"
  using assms
proof (induct rule: ForwardPIT_mode3_induct)
  case (step f p b s s')
  from step(2,3) show ?case
    by (auto simp: Let_def dest!: step(1) split: if_splits)
qed

lemma ForwardPIT_log_ok:
  "ForwardPIT t s = Some s' \<Longrightarrow> log_ok s \<Longrightarrow> log_ok s'"
  by (auto simp: ForwardPIT_def Let_def ForwardPIT_oneshot_def ForwardPIT_mode4_def
      dest!: ForwardPIT_mode2_log_ok ForwardPIT_mode3_log_ok split: if_splits)

lemma edge_log_AddDelayEntry:
  "log_ok s \<Longrightarrow>
   edge_log (AddDelayEntry i l s) =
     (if l = previous_output_level s \<or> used s = SPKR_ENTRIES then edge_log s
      else edge_log s @ [\<lparr>index = i, output_level = l\<rparr>])"
  by (auto simp: AddDelayEntry_alt edge_log_def log_ok_def take_Suc_conv_app_nth)

lemma edge_log_AddPITOutput:
  "log_ok s \<Longrightarrow>
   edge_log (AddPITOutput i s) =
     (if pit_output_enabled s \<and> pit_output_level s \<noteq> previous_output_level s \<and>
         used s \<noteq> SPKR_ENTRIES
      then edge_log s @ [\<lparr>index = i, output_level = pit_output_level s\<rparr>]
      else edge_log s)"
  by (simp add: AddPITOutput_def edge_log_AddDelayEntry)

lemma edge_log_updates [simp]:
  "edge_log (s\<lparr>pit_index := a\<rparr>) = edge_log s"
  "edge_log (s\<lparr>pit_output_level := l\<rparr>) = edge_log s"
  "edge_log (s\<lparr>pit_half := h\<rparr>) = edge_log s"
  "edge_log (s\<lparr>pit_max := m\<rparr>) = edge_log s"
  "edge_log (s\<lparr>pit_mode := md\<rparr>) = edge_log s"
  by (simp_all add: edge_log_def)

lemma AddPITOutput_fields [simp]:
  "pit_mode (AddPITOutput i s) = pit_mode s"
  "pit_output_level (AddPITOutput i s) = pit_output_level s"
  "pit_output_enabled (AddPITOutput i s) = pit_output_enabled s"
  "pit_max (AddPITOutput i s) = pit_max s"
  "pit_half (AddPITOutput i s) = pit_half s"
  "pit_new_max (AddPITOutput i s) = pit_new_max s"
  "pit_new_half (AddPITOutput i s) = pit_new_half s"
  "pit_index (AddPITOutput i s) = pit_index s"
  "last_index (AddPITOutput i s) = last_index s"
  "pit_mode3_counting (AddPITOutput i s) = pit_mode3_counting s"
  "minimum_counter (AddPITOutput i s) = minimum_counter s"
  by (simp_all add: AddPITOutput_def AddDelayEntry_alt)


lemma used_AddPITOutput:
  "used (AddPITOutput i s) =
     (if pit_output_enabled s \<and> pit_output_level s \<noteq> previous_output_level s \<and>
         used s \<noteq> SPKR_ENTRIES
      then used s + 1 else used s)"
  by (simp add: AddPITOutput_def AddDelayEntry_alt)

lemma ForwardPIT_dummy: "pit_mode s = 6 \<Longrightarrow> ForwardPIT t s = Some (s\<lparr>last_index := t\<rparr>)"
  by (simp add: ForwardPIT_def Let_def)

lemma forward_all_dummy:
  "pit_mode s = 6 \<Longrightarrow> forward_all ts s = Some (s\<lparr>last_index := last (last_index s # ts)\<rparr>)"
proof (induction ts arbitrary: s)
  case Nil
  then show ?case by simp
next
  case (Cons t ts)
  from Cons.prems have "pit_mode (s\<lparr>last_index := t\<rparr>) = 6" by simp
  from Cons.IH [OF this] Cons.prems show ?case
    by (simp add: ForwardPIT_dummy)
qed

lemma square_running_eq:
  "square_running = power_on\<lparr>pit_output_enabled := True, pit_clock_gate_enabled := True,
      pit_mode3_counting := True,
      entries := (entries power_on)[0 := \<lparr>index = 0, output_level = SPKR_POSITIVE_LEVEL\<rparr>],
      used := 1, previous_output_level := SPKR_POSITIVE_LEVEL\<rparr>"
  unfolding square_running_def PCSPEAKER_SetType_def ForwardPIT_power_on
  by (simp add: Let_def AddDelayEntry_def power_on_eq spkr_static_def level_defs SPKR_ENTRIES_def)

lemma ForwardPIT_square_running_35:
  "ForwardPIT (3 / 5) square_running =
     Some (square_running\<lparr>last_index := 3 / 5, pit_index := 3 / 5,
             pit_output_level := SPKR_NEGATIVE_LEVEL,
             entries := (entries square_running)
               [1 := \<lparr>index = 330000 / 596591, output_level = SPKR_NEGATIVE_LEVEL\<rparr>],
             used := 2, previous_output_level := SPKR_NEGATIVE_LEVEL\<rparr>)"
  by (simp add: ForwardPIT_def ForwardPIT_mode3.simps Let_def AddPITOutput_def AddDelayEntry_def
      square_running_eq power_on_eq spkr_static_def level_defs SPKR_ENTRIES_def)

lemma log_ok_power_on: "log_ok power_on"
  by (simp add: log_ok_def power_on_eq spkr_static_def SPKR_ENTRIES_def)

lemma log_ok_square_running: "log_ok square_running"
  by (simp add: log_ok_def square_running_eq power_on_eq spkr_static_def SPKR_ENTRIES_def)

lemma square_at_35_eq:
  "square_at_35 = square_running\<lparr>last_index := 3 / 5, pit_index := 3 / 5,
             pit_output_level := SPKR_NEGATIVE_LEVEL,
             entries := (entries square_running)
               [1 := \<lparr>index = 330000 / 596591, output_level = SPKR_NEGATIVE_LEVEL\<rparr>],
             used := 2, previous_output_level := SPKR_NEGATIVE_LEVEL\<rparr>"
  by (simp add: square_at_35_def ForwardPIT_square_running_35)

lemma edge_log_square_at_35:
  "edge_log square_at_35 =
     [\<lparr>index = 0, output_level = SPKR_POSITIVE_LEVEL\<rparr>,
      \<lparr>index = 330000 / 596591, output_level = SPKR_NEGATIVE_LEVEL\<rparr>]"
  by (simp add: edge_log_def square_at_35_eq square_running_eq power_on_eq spkr_static_def
      SPKR_ENTRIES_def take_Suc_conv_app_nth eval_nat_numeral del: replicate_Suc)









lemma SetType_power_on: "PCSPEAKER_SetType True True 0 power_on = Some square_running"
  unfolding square_running_def PCSPEAKER_SetType_def ForwardPIT_power_on
  by (simp add: Let_def)

lemma retuned_eq:
  "PCSPEAKER_SetCounter 1193182 600 3 (1 / 10) square_running =
     Some (square_running\<lparr>last_index := 1 / 10, pit_index := 1 / 10,
             pit_new_max := 300000 / 596591, pit_new_half := 150000 / 596591\<rparr>)"
  by (simp add: PCSPEAKER_SetCounter_def ForwardPIT_def ForwardPIT_mode3.simps Let_def
      square_running_eq power_on_eq spkr_static_def ms_per_pit_tick_def)

lemma retuned_later_eq:
  "PCSPEAKER_SetType True True (14 / 25)
     (square_running\<lparr>last_index := 1 / 10, pit_index := 1 / 10,
             pit_new_max := 300000 / 596591, pit_new_half := 150000 / 596591\<rparr>) =
   Some (square_running\<lparr>last_index := 14 / 25, pit_index := 852274 / 14914775,
           pit_new_max := 300000 / 596591, pit_new_half := 150000 / 596591,
           pit_max := 300000 / 596591, pit_half := 150000 / 596591,
           entries := (entries square_running)
             [Suc 0 := \<lparr>index = 330000 / 596591, output_level = SPKR_NEGATIVE_LEVEL\<rparr>,
              Suc (Suc 0) := \<lparr>index = 300000 / 596591, output_level = SPKR_POSITIVE_LEVEL\<rparr>],
           used := 3\<rparr>)"
  by (simp add: PCSPEAKER_SetType_def ForwardPIT_def ForwardPIT_mode3.simps Let_def
      AddPITOutput_def AddDelayEntry_def
      square_running_eq power_on_eq spkr_static_def level_defs SPKR_ENTRIES_def)

lemma consume_length:
  "consume i len buf cur st = Inr (c, out) \<Longrightarrow>
   length out = length st + (len - i) \<and> take (length st) out = st"
proof (induction i len buf cur st rule: consume.induct)
  case (1 i len buf cur st)
  show ?case
  proof (cases "i < len")
    case False
    with "1.prems" show ?thesis
      by (subst (asm) consume.simps) simp
  next
    case True
    let ?cur1 = "cur + buf ! i"
    from True "1.prems" have ok: "?cur1 \<ge> MIN_AUDIO \<and> ?cur1 \<le> MAX_AUDIO"
      and r: "consume (i + 1) len buf (?cur1 * SPKR_HIGHPASS) (st @ [float_to_int16 ?cur1]) =
                Inr (c, out)"
      by (subst (asm) consume.simps, simp add: Let_def split: if_splits)+
    from "1.IH" [OF True refl _ r] ok
    have "length out = length (st @ [float_to_int16 ?cur1]) + (len - (i + 1))"
      and t: "take (length (st @ [float_to_int16 ?cur1])) out = st @ [float_to_int16 ?cur1]"
      by auto
    with True have l: "length out = length st + (len - i)" by simp
    from t have "take (length st) (take (Suc (length st)) out) = take (length st) (st @ [float_to_int16 ?cur1])"
      by simp
    then have "take (length st) out = st" by simp
    with l show ?thesis by simp
  qed
qed

lemma consume_zeros:
  "\<forall>j < len. buf ! j = 0 \<Longrightarrow>
   consume i len buf 0 st = Inr (0, st @ replicate (len - i) 0)"
proof (induction "len - i" arbitrary: i st)
  case 0
  then show ?case by (subst consume.simps) simp
next
  case (Suc n)
  then have i: "i < len" by simp
  with Suc.prems have b: "buf ! i = 0" by simp
  from Suc.hyps(2) have "n = len - (i + 1)" by simp
  from Suc.hyps(1) [OF this Suc.prems, of "st @ [0]"]
  have "consume (i + 1) len buf 0 (st @ [0]) = Inr (0, (st @ [0]) @ replicate (len - (i + 1)) 0)" .
  moreover from i have "(st @ [0 :: int16]) @ replicate (len - (i + 1)) 0 = st @ replicate (len - i) 0"
    by (simp add: replicate_Suc [symmetric] Suc_diff_Suc del: replicate_Suc)
  ultimately show ?case
    by (subst consume.simps)
       (simp add: i b Let_def MIN_AUDIO_def MAX_AUDIO_def float_to_int16_def trunc_def)
qed

lemma shift_out_zeros:
  "\<forall>j < length buf. buf ! j = 0 \<Longrightarrow> shift_out i len buf = Inr buf"
proof (induction i len buf rule: shift_out.induct)
  case (1 i len buf)
  show ?case
  proof (cases "i < length buf")
    case False
    then show ?thesis by (subst shift_out.simps) simp
  next
    case True
    then have l: "i - len < length buf" by simp
    with "1.prems" True have "buf ! (i - len) = buf ! i" by simp
    with l have u: "buf[i - len := buf ! i] = buf" by (simp add: list_update_same_conv)
    from "1.IH" [OF True] l True u "1.prems" have "shift_out (i + 1) len buf = Inr buf"
      by simp
    with True l u show ?thesis by (subst shift_out.simps) simp
  qed
qed

lemma zero_rest_zeros:
  "\<forall>j < length buf. buf ! j = 0 \<Longrightarrow> zero_rest i buf = buf"
proof (induction i buf rule: zero_rest.induct)
  case (1 i buf)
  show ?case
  proof (cases "i < length buf")
    case False
    then show ?thesis by (subst zero_rest.simps) simp
  next
    case True
    with "1.prems" have u: "buf[i := 0] = buf" by (simp add: list_update_same_conv)
    from "1.IH" [OF True] u "1.prems" have "zero_rest (i + 1) buf = buf" by simp
    with True u show ?thesis by (subst zero_rest.simps) simp
  qed
qed

lemma add_impulse_taps_length:
  "add_impulse_taps i offset phase a tbl buf = Inr buf' \<Longrightarrow> length buf' = length buf"
proof (induction i offset phase a tbl buf rule: add_impulse_taps.induct)
  case (1 i offset phase a tbl buf)
  show ?case
  proof (cases "i < SPKR_FILTER_QUALITY")
    case False
    with "1.prems" show ?thesis
      by (subst (asm) add_impulse_taps.simps) simp
  next
    case True
    from True "1.prems" have b: "(offset + i) mod 2 ^ 32 < length buf"
      and w: "(phase + SPKR_OVERSAMPLING * i) mod 2 ^ 32 < SPKR_FILTER_WIDTH"
      by (subst (asm) add_impulse_taps.simps, simp split: if_splits)+
    let ?buf = "buf[(offset + i) mod 2 ^ 32 :=
                       buf ! ((offset + i) mod 2 ^ 32) +
                       a * tbl ! ((phase + i * SPKR_OVERSAMPLING) mod 2 ^ 32)]"
    from True b w "1.prems" have r: "add_impulse_taps (i + 1) offset phase a tbl ?buf = Inr buf'"
      by (subst (asm) add_impulse_taps.simps) simp
    from True b w have "\<not> \<not> (offset + i) mod 2 ^ 32 < length buf"
      and "\<not> \<not> (phase + SPKR_OVERSAMPLING * i) mod 2 ^ 32 < SPKR_FILTER_WIDTH"
      by simp_all
    from "1.IH" [OF True this r] show ?thesis by simp
  qed
qed

lemma add_impulse_length:
  "add_impulse idx a s = Inr s' \<Longrightarrow> length (output_buffer s') = length (output_buffer s)"
  by (auto simp: add_impulse_def dest: add_impulse_taps_length split: sum.splits prod.splits)

lemma add_impulses_length:
  "add_impulses es s = Inr s' \<Longrightarrow> length (output_buffer s') = length (output_buffer s)"
proof (induction es arbitrary: s)
  case Nil
  then show ?case by simp
next
  case (Cons e es)
  from Cons.prems obtain s1 where
    a: "add_impulse (clamp (index e) 0 1) (real_of_int (sint (output_level e))) s = Inr s1"
    and b: "add_impulses es s1 = Inr s'"
    by (auto split: sum.splits)
  from Cons.IH [OF b] add_impulse_length [OF a] show ?case by simp
qed

lemma CallBack_counts:
  assumes "PCSPEAKER_CallBack len s = Some (Inr (s', written, handed))"
  shows "length written = unat len"
    and "length handed = min (unat len) (length (output_buffer s))"
    and "handed = take (length handed) written"
    and "take (unat len - length (output_buffer s)) written =
           replicate (unat len - length (output_buffer s)) 0"
proof -
  from assms obtain s1 where f: "ForwardPIT 1 s = Some s1"
    by (auto simp: PCSPEAKER_CallBack_def split: option.splits)
  let ?s2 = "s1\<lparr>last_index := 0\<rparr>"
  from assms f obtain s3 where a: "add_impulses (take (used ?s2) (entries ?s2)) ?s2 = Inr s3"
    by (auto simp: PCSPEAKER_CallBack_def Let_def split: sum.splits)
  let ?size = "length (output_buffer s)"
  from ForwardPIT_static [OF f] add_impulses_length [OF a]
  have n: "length (output_buffer s3) = ?size"
    by (simp add: static_part_def)
  let ?zeros = "if unat len > ?size then replicate (unat len - ?size) (0 :: int16) else []"
  let ?len = "min (unat len) ?size"
  have u: "unat len \<le> 65535"
    using unsigned_less [of len, where 'a = nat] by simp
  have "\<exists>cur. consume 0 ?len (output_buffer s3) (current_output_level s3) ?zeros =
            Inr (cur, written) \<and> handed = take ?len written"
  proof (cases "unat len > ?size")
    case True
    with u have "check_cast_uint16 (int ?size) = Inr ?size"
      by (simp add: check_cast_uint16_def)
    with assms f a n True show ?thesis
      by (auto simp: PCSPEAKER_CallBack_def Let_def min_def split: sum.splits prod.splits)
  next
    case False
    with assms f a n show ?thesis
      by (auto simp: PCSPEAKER_CallBack_def Let_def min_def split: sum.splits prod.splits)
  qed
  then obtain cur where
    c: "consume 0 ?len (output_buffer s3) (current_output_level s3) ?zeros = Inr (cur, written)"
    and h: "handed = take ?len written"
    by blast
  from consume_length [OF c]
  have l: "length written = length ?zeros + ?len" and z: "take (length ?zeros) written = ?zeros"
    by simp_all
  from l show w: "length written = unat len" by (simp add: min_def)
  from h w show hl: "length handed = min (unat len) ?size" by simp
  from h hl show "handed = take (length handed) written" by simp
  from z show "take (unat len - ?size) written = replicate (unat len - ?size) 0"
    by (simp split: if_splits)
qed






lemma AddPITOutput_gate [simp]:
  "pit_clock_gate_enabled (AddPITOutput i s) = pit_clock_gate_enabled s"
  by (simp add: AddPITOutput_def AddDelayEntry_alt)







lemma length_wave_edges [simp]: "length (wave_edges t l h n) = n"
  by (induction n arbitrary: t l) simp_all











lemma floor_less_one:
  fixes p i M :: real
  assumes "0 < M" and "M \<le> p + i"
  shows "Suc (nat \<lfloor>(p - (M - i)) / M\<rfloor>) = nat \<lfloor>(p + i) / M\<rfloor>"
proof -
  from assms have "(p - (M - i)) / M = (p + i) / M - 1" by (simp add: field_simps)
  then have a: "\<lfloor>(p - (M - i)) / M\<rfloor> = \<lfloor>(p + i) / M\<rfloor> - 1" by simp
  from assms have "1 \<le> (p + i) / M" by simp
  then have "1 \<le> \<lfloor>(p + i) / M\<rfloor>" by linarith
  then have "Suc (nat (\<lfloor>(p + i) / M\<rfloor> - 1)) = nat \<lfloor>(p + i) / M\<rfloor>" by arith
  with a show ?thesis by (simp only:)
qed

lemma mode2_returns_bounded:
  assumes "pit_max s = M" and "0 < M"
    and "2 * nat \<lfloor>(p + pit_index s) / M\<rfloor> + (if pit_index s < pit_half s then 1 else 0) \<le> n"
  shows "\<exists>s'. ForwardPIT_mode2 p b s = Some s'"
  using assms
proof (induction n arbitrary: s p b)
  case 0
  then have i: "pit_half s \<le> pit_index s" and f: "nat \<lfloor>(p + pit_index s) / M\<rfloor> = 0"
    by (simp_all split: if_splits)
  have "p + pit_index s < M"
  proof (rule ccontr)
    assume "\<not> p + pit_index s < M"
    with "0.prems"(2) have "1 \<le> (p + pit_index s) / M" by simp
    then have "1 \<le> \<lfloor>(p + pit_index s) / M\<rfloor>" by linarith
    with f show False by simp
  qed
  with i "0.prems"(1) show ?case
    by (subst ForwardPIT_mode2.simps) (simp add: add.commute)
next
  case (Suc n)
  show ?case
  proof (cases "0 < p")
    case False
    then show ?thesis by (subst ForwardPIT_mode2.simps) simp
  next
    case True
    show ?thesis
    proof (cases "pit_half s \<le> pit_index s")
      case hi: True
      show ?thesis
      proof (cases "pit_max s \<le> pit_index s + p")
        case False
        with True hi show ?thesis by (subst ForwardPIT_mode2.simps) simp
      next
        case cross: True
        let ?d = "pit_max s - pit_index s"
        let ?s1 = "(AddPITOutput (b + ?d) (s\<lparr>pit_output_level := SPKR_NEGATIVE_LEVEL\<rparr>))
                     \<lparr>pit_index := 0\<rparr>"
        from True hi cross have f: "ForwardPIT_mode2 p b s = ForwardPIT_mode2 (p - ?d) (b + ?d) ?s1"
          by (subst ForwardPIT_mode2.simps) (simp add: Let_def)
        from Suc.prems(1) have m: "pit_max ?s1 = M" by simp
        from cross Suc.prems(1) have "M \<le> p + pit_index s" by simp
        from floor_less_one [OF Suc.prems(2) this] Suc.prems(1)
        have "Suc (nat \<lfloor>(p - ?d + pit_index ?s1) / M\<rfloor>) = nat \<lfloor>(p + pit_index s) / M\<rfloor>"
          by simp
        with Suc.prems(3) hi
        have "2 * nat \<lfloor>(p - ?d + pit_index ?s1) / M\<rfloor> +
            (if pit_index ?s1 < pit_half ?s1 then 1 else 0) \<le> n"
          by (simp split: if_splits)
        from Suc.IH [OF m Suc.prems(2) this] f show ?thesis by simp
      qed
    next
      case lo: False
      show ?thesis
      proof (cases "pit_half s \<le> pit_index s + p")
        case False
        with True lo show ?thesis by (subst ForwardPIT_mode2.simps) simp
      next
        case cross: True
        let ?d = "pit_half s - pit_index s"
        let ?s1 = "(AddPITOutput (b + ?d) (s\<lparr>pit_output_level := SPKR_POSITIVE_LEVEL\<rparr>))
                     \<lparr>pit_index := pit_half s\<rparr>"
        from True lo cross have f: "ForwardPIT_mode2 p b s = ForwardPIT_mode2 (p - ?d) (b + ?d) ?s1"
          by (subst ForwardPIT_mode2.simps) (simp add: Let_def)
        from Suc.prems(1) have m: "pit_max ?s1 = M" by simp
        have "p - ?d + pit_index ?s1 = p + pit_index s" by simp
        with Suc.prems(3) lo
        have "2 * nat \<lfloor>(p - ?d + pit_index ?s1) / M\<rfloor> +
            (if pit_index ?s1 < pit_half ?s1 then 1 else 0) \<le> n"
          by simp
        from Suc.IH [OF m Suc.prems(2) this] f show ?thesis by simp
      qed
    qed
  qed
qed

lemma mode2_returns: "0 < pit_max s \<Longrightarrow> \<exists>s'. ForwardPIT_mode2 p b s = Some s'"
  by (rule mode2_returns_bounded [OF refl _ order_refl])

lemma mode3_loaded_returns:
  assumes "pit_max s = M" and "pit_new_max s = M"
    and "pit_half s = H" and "pit_new_half s = H" and "0 < M"
    and "2 * nat \<lfloor>(p + pit_index s) / M\<rfloor> + (if pit_index s < H then 1 else 0) \<le> n"
  shows "\<exists>s'. ForwardPIT_mode3 p b s = Some s'"
  using assms
proof (induction n arbitrary: s p b)
  case 0
  then have i: "H \<le> pit_index s" and f: "nat \<lfloor>(p + pit_index s) / M\<rfloor> = 0"
    by (simp_all split: if_splits)
  have "p + pit_index s < M"
  proof (rule ccontr)
    assume "\<not> p + pit_index s < M"
    with "0.prems"(5) have "1 \<le> (p + pit_index s) / M" by simp
    then have "1 \<le> \<lfloor>(p + pit_index s) / M\<rfloor>" by linarith
    with f show False by simp
  qed
  with i "0.prems"(1,3) show ?case
    by (subst ForwardPIT_mode3.simps) (simp add: add.commute)
next
  case (Suc n)
  show ?case
  proof (cases "0 < p")
    case False
    then show ?thesis by (subst ForwardPIT_mode3.simps) simp
  next
    case True
    show ?thesis
    proof (cases "H \<le> pit_index s")
      case hi: True
      show ?thesis
      proof (cases "M \<le> pit_index s + p")
        case False
        with True hi Suc.prems(1,3) show ?thesis by (subst ForwardPIT_mode3.simps) simp
      next
        case cross: True
        let ?d = "M - pit_index s"
        let ?s1 = "(AddPITOutput (b + ?d) (s\<lparr>pit_output_level := SPKR_POSITIVE_LEVEL\<rparr>))
                     \<lparr>pit_index := 0, pit_half := H, pit_max := M\<rparr>"
        from True hi cross Suc.prems(1-4)
        have f: "ForwardPIT_mode3 p b s = ForwardPIT_mode3 (p - ?d) (b + ?d) ?s1"
          by (subst ForwardPIT_mode3.simps) (simp add: Let_def)
        from Suc.prems(2,4) have m: "pit_max ?s1 = M" "pit_new_max ?s1 = M"
          "pit_half ?s1 = H" "pit_new_half ?s1 = H"
          by simp_all
        from cross have "M \<le> p + pit_index s" by simp
        from floor_less_one [OF Suc.prems(5) this]
        have "Suc (nat \<lfloor>(p - ?d + pit_index ?s1) / M\<rfloor>) = nat \<lfloor>(p + pit_index s) / M\<rfloor>"
          by simp
        with Suc.prems(6) hi
        have "2 * nat \<lfloor>(p - ?d + pit_index ?s1) / M\<rfloor> +
            (if pit_index ?s1 < H then 1 else 0) \<le> n"
          by (simp split: if_splits)
        from Suc.IH [OF m Suc.prems(5) this] f show ?thesis by simp
      qed
    next
      case lo: False
      show ?thesis
      proof (cases "H \<le> pit_index s + p")
        case False
        with True lo Suc.prems(1,3) show ?thesis by (subst ForwardPIT_mode3.simps) simp
      next
        case cross: True
        let ?d = "H - pit_index s"
        let ?s1 = "(AddPITOutput (b + ?d) (s\<lparr>pit_output_level := SPKR_NEGATIVE_LEVEL\<rparr>))
                     \<lparr>pit_index := H, pit_half := H, pit_max := M\<rparr>"
        from True lo cross Suc.prems(1-4)
        have f: "ForwardPIT_mode3 p b s = ForwardPIT_mode3 (p - ?d) (b + ?d) ?s1"
          by (subst ForwardPIT_mode3.simps) (simp add: Let_def)
        from Suc.prems(2,4) have m: "pit_max ?s1 = M" "pit_new_max ?s1 = M"
          "pit_half ?s1 = H" "pit_new_half ?s1 = H"
          by simp_all
        have "p - ?d + pit_index ?s1 = p + pit_index s" by simp
        with Suc.prems(6) lo
        have "2 * nat \<lfloor>(p - ?d + pit_index ?s1) / M\<rfloor> +
            (if pit_index ?s1 < H then 1 else 0) \<le> n"
          by simp
        from Suc.IH [OF m Suc.prems(5) this] f show ?thesis by simp
      qed
    qed
  qed
qed

lemma mode3_returns:
  assumes "0 < pit_new_max s"
  shows "\<exists>s'. ForwardPIT_mode3 p b s = Some s'"
proof (cases "0 < p")
  case False
  then show ?thesis by (subst ForwardPIT_mode3.simps) simp
next
  case True
  show ?thesis
  proof (cases "pit_half s \<le> pit_index s")
    case hi: True
    show ?thesis
    proof (cases "pit_max s \<le> pit_index s + p")
      case False
      with True hi show ?thesis by (subst ForwardPIT_mode3.simps) simp
    next
      case cross: True
      let ?d = "pit_max s - pit_index s"
      let ?s1 = "(AddPITOutput (b + ?d) (s\<lparr>pit_output_level := SPKR_POSITIVE_LEVEL\<rparr>))
                   \<lparr>pit_index := 0, pit_half := pit_new_half s, pit_max := pit_new_max s\<rparr>"
      from True hi cross
      have f: "ForwardPIT_mode3 p b s = ForwardPIT_mode3 (p - ?d) (b + ?d) ?s1"
        by (subst ForwardPIT_mode3.simps) (simp add: Let_def)
      have "\<exists>s'. ForwardPIT_mode3 (p - ?d) (b + ?d) ?s1 = Some s'"
        by (rule mode3_loaded_returns [OF _ _ _ _ assms order_refl]) simp_all
      with f show ?thesis by simp
    qed
  next
    case lo: False
    show ?thesis
    proof (cases "pit_half s \<le> pit_index s + p")
      case False
      with True lo show ?thesis by (subst ForwardPIT_mode3.simps) simp
    next
      case cross: True
      let ?d = "pit_half s - pit_index s"
      let ?s1 = "(AddPITOutput (b + ?d) (s\<lparr>pit_output_level := SPKR_NEGATIVE_LEVEL\<rparr>))
                   \<lparr>pit_index := pit_half s, pit_half := pit_new_half s, pit_max := pit_new_max s\<rparr>"
      from True lo cross
      have f: "ForwardPIT_mode3 p b s = ForwardPIT_mode3 (p - ?d) (b + ?d) ?s1"
        by (subst ForwardPIT_mode3.simps) (simp add: Let_def)
      have "\<exists>s'. ForwardPIT_mode3 (p - ?d) (b + ?d) ?s1 = Some s'"
        by (rule mode3_loaded_returns [OF _ _ _ _ assms order_refl]) simp_all
      with f show ?thesis by simp
    qed
  qed
qed

lemma ForwardPIT_returns:
  assumes "periods_ok s"
  shows "\<exists>s'. ForwardPIT t s = Some s'"
proof -
  let ?s = "s\<lparr>last_index := t\<rparr>"
  from assms have a: "pit_mode s = 2 \<Longrightarrow> 0 < pit_max ?s"
    and b: "pit_mode s = 3 \<Longrightarrow> pit_mode3_counting s \<Longrightarrow> 0 < pit_new_max ?s"
    by (simp_all add: periods_ok_def)
  from mode2_returns [OF a] mode3_returns [OF b] show ?thesis
    by (auto simp: ForwardPIT_def Let_def)
qed

lemma mode2_zero_period_stalls:
  assumes "ForwardPIT_mode2 p b s = Some s'"
  shows "\<not> (pit_max s = 0 \<and> 0 < pit_half s \<and>
            (pit_index s = 0 \<and> pit_half s < p \<or> pit_index s = pit_half s \<and> 0 < p))"
  using assms
proof (induct rule: ForwardPIT_mode2_induct)
  case (step f p b s s')
  from step(2) show ?case
    by (auto simp: Let_def dest!: step(1) split: if_splits)
qed

lemma degraded_high_eq:
  "PCSPEAKER_SetCounter 1193182 100 3 (1 / 5) square_running =
     Some (square_running\<lparr>last_index := 1 / 5, pit_index := 1 / 5, pit_mode := 6\<rparr>)"
  by (simp add: PCSPEAKER_SetCounter_def ForwardPIT_def ForwardPIT_mode3.simps Let_def
      AddPITOutput_def AddDelayEntry_def square_running_eq power_on_eq spkr_static_def)

lemma zero_rate_eq:
  "PCSPEAKER_SetCounter 1193182 0 2 0 power_on =
     Some (power_on\<lparr>pit_output_level := SPKR_NEGATIVE_LEVEL,
             pit_half := 500 / 596591, pit_max := 0, pit_mode := 2\<rparr>)"
  unfolding PCSPEAKER_SetCounter_def ForwardPIT_power_on
  by (simp add: Let_def AddPITOutput_def ms_per_pit_tick_def power_on_eq spkr_static_def)

lemma zero_rate_stalls: "ForwardPIT (1 / 2) zero_rate = None"
proof -
  let ?s = "zero_rate\<lparr>last_index := 1 / 2\<rparr>"
  have z: "zero_rate = power_on\<lparr>pit_output_level := SPKR_NEGATIVE_LEVEL,
             pit_half := 500 / 596591, pit_max := 0, pit_mode := 2\<rparr>"
    by (simp add: zero_rate_def zero_rate_eq)
  have f: "pit_mode ?s = 2" "last_index zero_rate = 0" "pit_max ?s = 0"
    "pit_half ?s = 500 / 596591" "pit_index ?s = 0"
    by (simp_all add: z power_on_eq spkr_static_def)
  have "ForwardPIT_mode2 (1 / 2) 0 ?s = None"
  proof (cases "ForwardPIT_mode2 (1 / 2) 0 ?s")
    case None
    then show ?thesis .
  next
    case (Some s')
    from mode2_zero_period_stalls [OF this] f show ?thesis by simp
  qed
  with f(1,2) show ?thesis
    by (simp add: ForwardPIT_def Let_def)
qed

lemma periods_ok_square_running: "periods_ok square_running"
  by (simp add: periods_ok_def square_running_eq power_on_eq spkr_static_def)









lemma ForwardPIT_flags:
  assumes "ForwardPIT t s = Some s'"
  shows "pit_clock_gate_enabled s' = pit_clock_gate_enabled s"
    and "pit_output_enabled s' = pit_output_enabled s"
    and "minimum_counter s' = minimum_counter s"
    and "pit_new_max s' = pit_new_max s"
  using ForwardPIT_static [OF assms] by (simp_all add: static_part_def)

lemma programmed_square_wave:
  assumes "periods_ok s0" and "log_ok s0"
    and "pit_clock_gate_enabled s0" and "pit_output_enabled s0"
    and "minimum_counter s0 \<le> cntr" and "0 < cntr" and "0 < tick_rate"
  shows "\<exists>s1 s2. PCSPEAKER_SetPITControl 3 t s0 = Some s1 \<and>
           PCSPEAKER_SetCounter tick_rate cntr 3 t' s1 = Some s2 \<and>
           square_wave (ms_per_pit_tick tick_rate * of_int cntr) s2 \<and>
           pit_index s2 = 0 \<and> last_index s2 = t'"
proof -
  from ForwardPIT_returns [OF assms(1)] obtain s where f: "ForwardPIT t s0 = Some s"
    by blast
  note fl = ForwardPIT_flags [OF f]
  from ForwardPIT_log_ok [OF f assms(2)] have ok: "log_ok s" .
  let ?s1 = "AddPITOutput t (s\<lparr>pit_mode := 3, pit_mode3_counting := False,
                                 pit_output_level := SPKR_POSITIVE_LEVEL\<rparr>)"
  let ?P = "ms_per_pit_tick tick_rate * of_int cntr"
  let ?s2 = "(AddPITOutput t'
               (?s1\<lparr>last_index := t', pit_new_max := ?P, pit_new_half := ?P / 2,
                     pit_index := 0, pit_max := ?P, pit_half := ?P / 2,
                     pit_mode3_counting := True,
                     pit_output_level := SPKR_POSITIVE_LEVEL\<rparr>))\<lparr>pit_mode := 3\<rparr>"
  from f have a: "PCSPEAKER_SetPITControl 3 t s0 = Some ?s1"
    by (simp add: PCSPEAKER_SetPITControl_def)
  have g: "ForwardPIT t' ?s1 = Some (?s1\<lparr>last_index := t'\<rparr>)"
    by (simp add: ForwardPIT_def Let_def)
  have m: "minimum_counter ?s1 = minimum_counter s0"
    and c: "pit_clock_gate_enabled ?s1" and o: "pit_output_enabled ?s1"
    using fl assms(3,4) by (simp_all add: AddPITOutput_def AddDelayEntry_alt)
  from g m c assms(5) have b: "PCSPEAKER_SetCounter tick_rate cntr 3 t' ?s1 = Some ?s2"
    by (simp add: PCSPEAKER_SetCounter_def Let_def AddPITOutput_def AddDelayEntry_alt)
  from assms(6,7) have P: "0 < ?P" by (simp add: ms_per_pit_tick_def)
  from ok have "log_ok ?s2"
    by (simp add: log_ok_def AddPITOutput_def AddDelayEntry_alt)
  with P c o have sq: "square_wave ?P ?s2"
    by (simp add: square_wave_def AddPITOutput_def AddDelayEntry_alt)
  from a b sq show ?thesis
    by (intro exI [of _ ?s1] exI [of _ ?s2]) simp
qed





section \<open>The claims\<close>

subsection \<open>The deduplication reference level\<close>

text \<open>
  C8. The reference level that \<^verbatim>\<open>AddDelayEntry\<close> compares against is set to the submitted
  level before the capacity check, and nothing but \<^verbatim>\<open>AddDelayEntry\<close> ever writes it.
  So (first conjunct) after any submission the reference is the submitted level, also
  when the log was full; (second) a submission of a new level to a full log changes the
  reference and nothing else; (third) a submission at the reference level changes
  nothing; (fourth) after a submission that was discarded because the log was full
  (\<open>used\<close> at its capacity of 1024) and a drain of the log, a submission of the same
  level is still dropped; (fifth) the render callback, which drains the log, leaves the
  reference as its forced advance to the end of the tick left it.
\<close>

theorem dedup_reference_never_reset:
  "previous_output_level (AddDelayEntry idx lvl s) = lvl \<and>
   (used s = SPKR_ENTRIES \<and> lvl \<noteq> previous_output_level s \<longrightarrow>
      AddDelayEntry idx lvl s = s\<lparr>previous_output_level := lvl\<rparr>) \<and>
   (previous_output_level s = lvl \<longrightarrow> AddDelayEntry idx lvl s = s) \<and>
   (used s = SPKR_ENTRIES \<longrightarrow>
      AddDelayEntry idx' lvl ((AddDelayEntry idx lvl s)\<lparr>used := 0\<rparr>) =
        (AddDelayEntry idx lvl s)\<lparr>used := 0\<rparr>) \<and>
   (\<forall>s1 s' written handed.
      ForwardPIT 1 s = Some s1 \<and> PCSPEAKER_CallBack len s = Some (Inr (s', written, handed)) \<longrightarrow>
      used s' = 0 \<and> previous_output_level s' = previous_output_level s1)"
proof (intro conjI allI impI)
  show "previous_output_level (AddDelayEntry idx lvl s) = lvl"
    by (simp add: AddDelayEntry_alt)
next
  assume "used s = SPKR_ENTRIES \<and> lvl \<noteq> previous_output_level s"
  then show "AddDelayEntry idx lvl s = s\<lparr>previous_output_level := lvl\<rparr>"
    by (simp add: AddDelayEntry_def)
next
  assume "previous_output_level s = lvl"
  then show "AddDelayEntry idx lvl s = s" by (rule AddDelayEntry_same)
next
  assume "used s = SPKR_ENTRIES"
  show "AddDelayEntry idx' lvl ((AddDelayEntry idx lvl s)\<lparr>used := 0\<rparr>) =
        (AddDelayEntry idx lvl s)\<lparr>used := 0\<rparr>"
    by (rule AddDelayEntry_same) (simp add: AddDelayEntry_alt)
next
  fix s1 s' written handed
  assume h: "ForwardPIT 1 s = Some s1 \<and>
    PCSPEAKER_CallBack len s = Some (Inr (s', written, handed))"
  then have f: "ForwardPIT 1 s = Some s1" by simp
  from h have c: "PCSPEAKER_CallBack len s = Some (Inr (s', written, handed))" by simp
  let ?s2 = "s1\<lparr>last_index := 0\<rparr>"
  from c f obtain s3 where a: "add_impulses (take (used ?s2) (entries ?s2)) ?s2 = Inr s3"
    by (auto simp: PCSPEAKER_CallBack_def Let_def split: sum.splits)
  from add_impulses_frame [OF a] obtain b where s3: "s3 = ?s2\<lparr>output_buffer := b\<rparr>" by blast
  from c f a show "used s' = 0"
    by (auto simp: PCSPEAKER_CallBack_def Let_def split: sum.splits if_splits)
  from c f a s3 show "previous_output_level s' = previous_output_level s1"
    by (auto simp: PCSPEAKER_CallBack_def Let_def split: sum.splits if_splits)
qed

theorem dedup_reference_never_reset_witness:
  "used log_full = SPKR_ENTRIES \<and>
   SPKR_POSITIVE_LEVEL \<noteq> previous_output_level log_full \<and>
   AddDelayEntry (1 / 2) SPKR_POSITIVE_LEVEL log_full =
     log_full\<lparr>previous_output_level := SPKR_POSITIVE_LEVEL\<rparr> \<and>
   AddDelayEntry (3 / 4) SPKR_POSITIVE_LEVEL
       ((AddDelayEntry (1 / 2) SPKR_POSITIVE_LEVEL log_full)\<lparr>used := 0\<rparr>) =
     (AddDelayEntry (1 / 2) SPKR_POSITIVE_LEVEL log_full)\<lparr>used := 0\<rparr> \<and>
   previous_output_level power_on = SPKR_NEGATIVE_LEVEL \<and>
   AddDelayEntry (1 / 2) SPKR_NEGATIVE_LEVEL power_on = power_on \<and>
   ForwardPIT 1 power_on = Some (power_on\<lparr>last_index := 1\<rparr>) \<and>
   PCSPEAKER_CallBack 0 power_on = Some (Inr (power_on, [], [])) \<and>
   used power_on = 0 \<and>
   previous_output_level power_on = previous_output_level (power_on\<lparr>last_index := 1\<rparr>)"
proof -
  have u: "used log_full = SPKR_ENTRIES"
    by (simp add: log_full_def)
  have p: "SPKR_POSITIVE_LEVEL \<noteq> previous_output_level log_full"
    by (simp add: log_full_def power_on_eq spkr_static_def level_defs)
  have q: "previous_output_level power_on = SPKR_NEGATIVE_LEVEL"
    by (simp add: power_on_eq spkr_static_def)
  note a = dedup_reference_never_reset
             [of "1 / 2" SPKR_POSITIVE_LEVEL log_full "3 / 4" 0]
  note b = dedup_reference_never_reset
             [of "1 / 2" SPKR_NEGATIVE_LEVEL power_on "3 / 4" 0]
  from a u p have a1: "AddDelayEntry (1 / 2) SPKR_POSITIVE_LEVEL log_full =
      log_full\<lparr>previous_output_level := SPKR_POSITIVE_LEVEL\<rparr>"
    by blast
  from a u have a2: "AddDelayEntry (3 / 4) SPKR_POSITIVE_LEVEL
       ((AddDelayEntry (1 / 2) SPKR_POSITIVE_LEVEL log_full)\<lparr>used := 0\<rparr>) =
     (AddDelayEntry (1 / 2) SPKR_POSITIVE_LEVEL log_full)\<lparr>used := 0\<rparr>"
    by blast
  from b q have b1: "AddDelayEntry (1 / 2) SPKR_NEGATIVE_LEVEL power_on = power_on"
    by blast
  from b ForwardPIT_power_on [of 1] CallBack_0_power_on
  have b2: "used power_on = 0 \<and>
    previous_output_level power_on = previous_output_level (power_on\<lparr>last_index := 1\<rparr>)"
    by blast
  from u p a1 a2 q b1 b2 ForwardPIT_power_on [of 1] CallBack_0_power_on show ?thesis
    by blast
qed

subsection \<open>A trigger in mode 1 before the first counter load\<close>

text \<open>
  C9. When \<^verbatim>\<open>PCSPEAKER_SetType\<close> delivers a rising edge of the clock gate while the
  timer is in mode 1 and still waits for its first counter load, the call returns and
  the timing state of mode 1 is as before: the active period (and half period), the
  pending period, the internal output level (high stays high), the running index and
  the waiting-for-trigger flag are unchanged, and the waiting-for-counter flag is
  still set.
\<close>

theorem trigger_while_waiting_for_counter:
  assumes "pit_mode s = 1"
    and "pit_mode1_waiting_for_counter s"
    and "\<not> pit_clock_gate_enabled s"
  shows "\<exists>s'. PCSPEAKER_SetType True output_enabled newindex s = Some s' \<and>
           pit_max s' = pit_max s \<and>
           pit_half s' = pit_half s \<and>
           pit_mode1_pending_max s' = pit_mode1_pending_max s \<and>
           pit_output_level s' = pit_output_level s \<and>
           pit_index s' = pit_index s \<and>
           pit_mode1_waiting_for_counter s' \<and>
           pit_mode1_waiting_for_trigger s' = pit_mode1_waiting_for_trigger s \<and>
           pit_mode s' = 1"
  using assms
  by (simp add: PCSPEAKER_SetType_def ForwardPIT_def Let_def AddDelayEntry_alt)

theorem trigger_while_waiting_for_counter_witness:
  "pit_mode mode1_armed = 1 \<and>
   pit_mode1_waiting_for_counter mode1_armed \<and>
   \<not> pit_clock_gate_enabled mode1_armed \<and>
   pit_output_level mode1_armed = SPKR_POSITIVE_LEVEL \<and>
   (\<exists>s'. PCSPEAKER_SetType True True (1 / 2) mode1_armed = Some s' \<and>
      pit_max s' = pit_max mode1_armed \<and>
      pit_index s' = pit_index mode1_armed \<and>
      pit_output_level s' = SPKR_POSITIVE_LEVEL \<and>
      pit_mode1_waiting_for_counter s' \<and>
      pit_mode s' = 1)"
proof -
  have m: "pit_mode mode1_armed = 1"
    and w: "pit_mode1_waiting_for_counter mode1_armed"
    and g: "\<not> pit_clock_gate_enabled mode1_armed"
    and l: "pit_output_level mode1_armed = SPKR_POSITIVE_LEVEL"
    by (simp_all add: mode1_armed_eq power_on_eq spkr_static_def)
  from trigger_while_waiting_for_counter [OF m w g, of True "1 / 2"] m w g l
  show ?thesis by auto
qed

subsection \<open>Tap writes of clamped edges stay inside the buffer\<close>

text \<open>
  C10. The constructor sizes the accumulation buffer to \<^verbatim>\<open>SPKR_FILTER_QUALITY\<close> plus the
  samples of one millisecond plus 1 (first conjunct: the state it returns is \<open>sized\<close>).
  In a state so sized, the render callback's clamp puts every time index into \<open>[0, 1]\<close>;
  for the clamped index \<^verbatim>\<open>add_impulse\<close> finds an offset and a phase such that all
  \<^verbatim>\<open>SPKR_FILTER_QUALITY\<close> tap writes lie inside the buffer and all kernel reads inside
  the \<^verbatim>\<open>SPKR_FILTER_WIDTH\<close> entries of the kernel, so that neither assertion fails and
  the call returns a state, sized as before; and the loop of the callback over the
  whole edge log, after the forced advance, returns a state as well.
\<close>

theorem clamped_edges_stay_in_bounds:
  "(PCSPEAKER tick_rate impulse pcrate s0 = Inr s \<longrightarrow> sized s) \<and>
   (sized s \<longrightarrow>
      0 \<le> clamp idx 0 1 \<and> clamp idx 0 1 \<le> 1 \<and>
      (\<exists>offset phase.
         impulse_position (rate_per_ms s) (clamp idx 0 1) = Inr (offset, phase) \<and>
         offset + SPKR_FILTER_QUALITY \<le> length (output_buffer s) \<and>
         phase + SPKR_OVERSAMPLING * (SPKR_FILTER_QUALITY - 1) < SPKR_FILTER_WIDTH \<and>
         (\<exists>s'. add_impulse (clamp idx 0 1) amplitude s = Inr s' \<and> sized s')) \<and>
      (\<forall>s1. ForwardPIT 1 s = Some s1 \<longrightarrow>
         (\<exists>s3. add_impulses (take (used s1) (entries s1)) (s1\<lparr>last_index := 0\<rparr>) = Inr s3 \<and>
               sized s3)))"
proof (intro conjI impI allI)
  assume "PCSPEAKER tick_rate impulse pcrate s0 = Inr s"
  then show "sized s" by (rule PCSPEAKER_sized)
next
  show "0 \<le> clamp idx 0 1" and "clamp idx 0 1 \<le> 1"
    using clamp_unit [of idx] by simp_all
next
  assume sz: "sized s"
  from add_impulse_sized [OF sz, of "clamp idx 0 1" amplitude] clamp_unit [of idx]
  obtain offset phase where
    ip: "impulse_position (rate_per_ms s) (clamp idx 0 1) = Inr (offset, phase)"
    and ph: "phase < SPKR_OVERSAMPLING"
    and fit: "offset + SPKR_FILTER_QUALITY \<le> length (output_buffer s)"
    and ai: "add_impulse (clamp idx 0 1) amplitude s =
               Inr (s\<lparr>output_buffer :=
                       taps_added 0 offset phase amplitude (sampled_impulse s) (output_buffer s)\<rparr>)"
    by blast
  from ph have w: "phase + SPKR_OVERSAMPLING * (SPKR_FILTER_QUALITY - 1) < SPKR_FILTER_WIDTH"
    by (simp add: SPKR_OVERSAMPLING_def SPKR_FILTER_QUALITY_def SPKR_FILTER_WIDTH_def)
  from sz have "sized (s\<lparr>output_buffer :=
      taps_added 0 offset phase amplitude (sampled_impulse s) (output_buffer s)\<rparr>)"
    by (simp add: sized_output_buffer)
  with ip fit w ai
  show "\<exists>offset phase.
         impulse_position (rate_per_ms s) (clamp idx 0 1) = Inr (offset, phase) \<and>
         offset + SPKR_FILTER_QUALITY \<le> length (output_buffer s) \<and>
         phase + SPKR_OVERSAMPLING * (SPKR_FILTER_QUALITY - 1) < SPKR_FILTER_WIDTH \<and>
         (\<exists>s'. add_impulse (clamp idx 0 1) amplitude s = Inr s' \<and> sized s')"
    by blast
next
  fix s1
  assume sz: "sized s" and f: "ForwardPIT 1 s = Some s1"
  from ForwardPIT_static [OF f] sz have "sized (s1\<lparr>last_index := 0\<rparr>)"
    by (simp add: static_part_def sized_def)
  from add_impulses_sized [OF this]
  show "\<exists>s3. add_impulses (take (used s1) (entries s1)) (s1\<lparr>last_index := 0\<rparr>) = Inr s3 \<and>
          sized s3"
    by blast
qed

theorem clamped_edges_stay_in_bounds_witness:
  "PCSPEAKER 1193182 (\<lambda>t. 1 / 100) 8000 spkr_static = Inr power_on \<and>
   sized power_on \<and>
   clamp (3 / 2) 0 1 = 1 \<and>
   impulse_position (rate_per_ms power_on) (clamp (3 / 2) 0 1) = Inr (8, 0) \<and>
   8 + SPKR_FILTER_QUALITY \<le> length (output_buffer power_on) \<and>
   (\<exists>s'. add_impulse (clamp (3 / 2) 0 1) 20000 power_on = Inr s' \<and> sized s') \<and>
   ForwardPIT 1 power_on = Some (power_on\<lparr>last_index := 1\<rparr>) \<and>
   (\<exists>s3. add_impulses (take (used (power_on\<lparr>last_index := 1\<rparr>))
                          (entries (power_on\<lparr>last_index := 1\<rparr>)))
            (power_on\<lparr>last_index := 1, last_index := 0\<rparr>) = Inr s3 \<and> sized s3)"
proof -
  note t = clamped_edges_stay_in_bounds
             [of 1193182 "\<lambda>t. 1 / 100" 8000 spkr_static power_on "3 / 2" 20000]
  from t PCSPEAKER_power_on have sz: "sized power_on" by blast
  have c: "clamp (3 / 2) 0 1 = 1" by (simp add: clamp_def)
  have r: "rate_per_ms power_on = 8" by (simp add: power_on_eq)
  have l: "length (output_buffer power_on) = 109" by (simp add: power_on_eq)
  from t sz have "\<exists>s'. add_impulse (clamp (3 / 2) 0 1) 20000 power_on = Inr s' \<and> sized s'"
    by blast
  moreover from t sz ForwardPIT_power_on [of 1]
  have "\<exists>s3. add_impulses (take (used (power_on\<lparr>last_index := 1\<rparr>))
                          (entries (power_on\<lparr>last_index := 1\<rparr>)))
            (power_on\<lparr>last_index := 1, last_index := 0\<rparr>) = Inr s3 \<and> sized s3"
    by blast
  ultimately show ?thesis
    using PCSPEAKER_power_on sz ForwardPIT_power_on [of 1]
    by (simp add: c r l impulse_position_8_1 SPKR_FILTER_QUALITY_def)
qed

subsection \<open>The sub-sample phase of an impulse\<close>

text \<open>
  C6 as stated fails. With 8 samples per millisecond an edge at time \<open>1 / 400\<close> lies
  \<open>0.64\<close> phase steps after sample 0. Rounding to the nearest available phase selects
  step 1; \<^verbatim>\<open>add_impulse\<close> selects offset 0 and phase 0, that is step 0, exactly on the
  sample boundary.
\<close>

theorem impulse_phase_not_nearest_counterexample:
  "impulse_position (rate_per_ms power_on) (1 / 400) = Inr (0, 0) \<and>
   encoded_position 0 0 = 0 \<and>
   nearest_position (rate_per_ms power_on) (1 / 400) = 1"
proof -
  have r: "rate_per_ms power_on = 8" by (simp add: power_on_eq)
  have "round (16 / 25 :: real) = 1"
    by (simp add: round_def)
  then show ?thesis
    by (simp add: r impulse_position_def float_to_uint32_def SPKR_OVERSAMPLING_def Let_def
        encoded_position_def nearest_position_def)
qed

text \<open>
  C6 (amended). For an edge at clamped time \<open>t\<close> with amplitude \<open>a\<close>, in a sized state,
  \<^verbatim>\<open>add_impulse\<close> computes the fractional sample offset \<open>t * rate_per_ms\<close> and truncates
  it, rather than rounding it to nearest, to the grid of \<open>1 / SPKR_OVERSAMPLING\<close> of a
  sample: it chooses an integer sample offset and a phase below \<^verbatim>\<open>SPKR_OVERSAMPLING\<close>,
  counted back from that sample, with
  \<open>offset * SPKR_OVERSAMPLING - phase = \<lfloor>t * rate_per_ms * SPKR_OVERSAMPLING\<rfloor>\<close> (phase 0:
  the truncated position is on a sample boundary). It returns, having added
  \<open>a * kernel[phase + i * SPKR_OVERSAMPLING]\<close> to \<open>AccumulationBuffer[offset + i]\<close> for every
  tap \<open>i\<close> from 0 to \<open>SPKR_FILTER_QUALITY - 1\<close> and changed nothing else.
\<close>

theorem impulse_truncates_to_phase:
  assumes "sized s" and "0 \<le> t" and "t \<le> 1"
  shows "\<exists>offset phase s'.
           impulse_position (rate_per_ms s) t = Inr (offset, phase) \<and>
           phase < SPKR_OVERSAMPLING \<and>
           encoded_position offset phase = \<lfloor>t * rate_per_ms s * real SPKR_OVERSAMPLING\<rfloor> \<and>
           add_impulse t a s = Inr s' \<and>
           s' = s\<lparr>output_buffer := output_buffer s'\<rparr> \<and>
           length (output_buffer s') = length (output_buffer s) \<and>
           (\<forall>i < SPKR_FILTER_QUALITY.
              output_buffer s' ! (offset + i) =
                output_buffer s ! (offset + i) +
                a * sampled_impulse s ! (phase + i * SPKR_OVERSAMPLING)) \<and>
           (\<forall>j < length (output_buffer s).
              j < offset \<or> offset + SPKR_FILTER_QUALITY \<le> j \<longrightarrow>
              output_buffer s' ! j = output_buffer s ! j)"
proof -
  note b = sized_bounds [OF assms]
  from add_impulse_sized [OF assms, of a]
  obtain offset phase where
    ip: "impulse_position (rate_per_ms s) t = Inr (offset, phase)"
    and ph: "phase < SPKR_OVERSAMPLING"
    and fit: "offset + SPKR_FILTER_QUALITY \<le> length (output_buffer s)"
    and ai: "add_impulse t a s =
               Inr (s\<lparr>output_buffer :=
                       taps_added 0 offset phase a (sampled_impulse s) (output_buffer s)\<rparr>)"
    by blast
  let ?s' = "s\<lparr>output_buffer :=
                taps_added 0 offset phase a (sampled_impulse s) (output_buffer s)\<rparr>"
  from impulse_position_trunc(2) [OF b(1,2) ip]
  have e: "encoded_position offset phase = \<lfloor>t * rate_per_ms s * real SPKR_OVERSAMPLING\<rfloor>"
    by (simp add: encoded_position_def)
  have taps: "\<forall>i < SPKR_FILTER_QUALITY.
      output_buffer ?s' ! (offset + i) =
        output_buffer s ! (offset + i) + a * sampled_impulse s ! (phase + i * SPKR_OVERSAMPLING)"
    using fit by (simp add: taps_added_nth)
  have rest: "\<forall>j < length (output_buffer s).
      j < offset \<or> offset + SPKR_FILTER_QUALITY \<le> j \<longrightarrow>
      output_buffer ?s' ! j = output_buffer s ! j"
    by (auto simp: taps_added_nth)
  have "?s' = ?s'\<lparr>output_buffer := output_buffer ?s'\<rparr>" by simp
  with ip ph e ai taps rest show ?thesis
    by (intro exI [of _ offset] exI [of _ phase] exI [of _ ?s']) simp
qed

theorem impulse_truncates_to_phase_witness:
  "sized power_on \<and> (0 :: real) \<le> 13 / 400 \<and> (13 / 400 :: real) \<le> 1 \<and>
   impulse_position (rate_per_ms power_on) (13 / 400) = Inr (1, 24) \<and>
   encoded_position 1 24 = \<lfloor>13 / 400 * rate_per_ms power_on * real SPKR_OVERSAMPLING\<rfloor> \<and>
   (\<exists>s'. add_impulse (13 / 400) 20000 power_on = Inr s' \<and>
      output_buffer s' ! 0 = 0 \<and>
      output_buffer s' ! 1 = 200 \<and>
      output_buffer s' ! 100 = 200 \<and>
      output_buffer s' ! 101 = 0)"
proof -
  have r: "rate_per_ms power_on = 8" by (simp add: power_on_eq)
  have ip: "impulse_position (rate_per_ms power_on) (13 / 400) = Inr (1, 24)"
    by (simp add: r impulse_position_def float_to_uint32_def SPKR_OVERSAMPLING_def Let_def)
  have e: "encoded_position 1 24 = \<lfloor>13 / 400 * rate_per_ms power_on * real SPKR_OVERSAMPLING\<rfloor>"
    by (simp add: r encoded_position_def SPKR_OVERSAMPLING_def)
  have buf: "output_buffer power_on = replicate 109 0"
    and tbl: "sampled_impulse power_on = replicate 3200 (1 / 100)"
    by (simp_all add: power_on_eq)
  from impulse_truncates_to_phase [OF sized_power_on, of "13 / 400" 20000] ip
  obtain s' where a: "add_impulse (13 / 400) 20000 power_on = Inr s'"
    and taps: "\<forall>i < SPKR_FILTER_QUALITY.
              output_buffer s' ! (1 + i) =
                output_buffer power_on ! (1 + i) +
                20000 * sampled_impulse power_on ! (24 + i * SPKR_OVERSAMPLING)"
    and rest: "\<forall>j < length (output_buffer power_on).
              j < 1 \<or> 1 + SPKR_FILTER_QUALITY \<le> j \<longrightarrow>
              output_buffer s' ! j = output_buffer power_on ! j"
    by auto
  from rest [rule_format, of 0] rest [rule_format, of 101]
  have "output_buffer s' ! 0 = 0" and "output_buffer s' ! 101 = 0"
    by (simp_all add: buf SPKR_FILTER_QUALITY_def)
  moreover from taps [rule_format, of 0] taps [rule_format, of 99]
  have "output_buffer s' ! 1 = 200" and "output_buffer s' ! 100 = 200"
    by (simp_all add: buf tbl SPKR_FILTER_QUALITY_def SPKR_OVERSAMPLING_def)
  ultimately show ?thesis
    using sized_power_on ip e a by simp
qed

subsection \<open>Rendering no samples\<close>

text \<open>
  C7 as stated fails. In \<open>one_edge\<close> the edge log holds one edge and the forced advance
  to the end of the tick changes \<open>last_index\<close> only; after the callback with a requested
  length of 0 the edge log is empty and slot 4 of the accumulation buffer has gone from
  0 to 200.
\<close>

theorem render_nothing_counterexample:
  "ForwardPIT 1 one_edge = Some (one_edge\<lparr>last_index := 1\<rparr>) \<and>
   edge_log one_edge = [\<lparr>index = 1 / 2, output_level = SPKR_POSITIVE_LEVEL\<rparr>] \<and>
   edge_log one_edge_rendered = [] \<and>
   output_buffer one_edge ! 4 = 0 \<and>
   output_buffer one_edge_rendered ! 4 = 200"
proof -
  have r: "one_edge_rendered =
      one_edge\<lparr>last_index := 0, used := 0,
        output_buffer := taps_added 0 4 0 20000 (replicate 3200 (1 / 100)) (replicate 109 0)\<rparr>"
    by (simp add: one_edge_rendered_def CallBack_0_one_edge)
  have "output_buffer one_edge ! 4 = 0"
    by (simp add: one_edge_eq power_on_eq)
  moreover have "output_buffer one_edge_rendered ! 4 = 200"
    by (simp add: r taps_added_nth SPKR_FILTER_QUALITY_def)
  moreover have "edge_log one_edge_rendered = []"
    by (simp add: r edge_log_def)
  ultimately show ?thesis
    using ForwardPIT_one_edge [of 1] edge_log_one_edge by simp
qed

text \<open>
  C7 (amended). With a requested length of 0 the render callback writes no sample, hands
  no sample to the mixer, leaves the level of the DC filter as it is and shifts nothing
  out of the accumulation buffer; but after the forced advance to the end of the tick and
  the reset of \<open>last_index\<close> it still adds the impulse of every logged edge to the
  accumulation buffer and empties the edge log. Buffer and log are as the forced advance
  left them only when the log is empty after the advance (second conjunct).
\<close>

theorem render_nothing_still_drains:
  "PCSPEAKER_CallBack 0 s =
     (case ForwardPIT 1 s of
        None \<Rightarrow> None
      | Some s1 \<Rightarrow>
          Some (case add_impulses (edge_log s1) (s1\<lparr>last_index := 0\<rparr>) of
                  Inl e \<Rightarrow> Inl e
                | Inr s3 \<Rightarrow> Inr (s3\<lparr>used := 0\<rparr>, [], []))) \<and>
   (\<forall>s1. ForwardPIT 1 s = Some s1 \<and> used s1 = 0 \<longrightarrow>
      PCSPEAKER_CallBack 0 s = Some (Inr (s1\<lparr>last_index := 0\<rparr>, [], [])))"
proof -
  note a = CallBack_0 [of s]
  have b: "PCSPEAKER_CallBack 0 s = Some (Inr (s1\<lparr>last_index := 0\<rparr>, [], []))"
    if "ForwardPIT 1 s = Some s1 \<and> used s1 = 0" for s1
  proof -
    from that have "s1\<lparr>last_index := 0, used := 0\<rparr> = s1\<lparr>last_index := 0\<rparr>"
      by (cases s1) simp
    with that show ?thesis
      by (simp add: a edge_log_def)
  qed
  from a b show ?thesis by blast
qed

theorem render_nothing_still_drains_witness:
  "ForwardPIT 1 power_on = Some (power_on\<lparr>last_index := 1\<rparr>) \<and>
   used (power_on\<lparr>last_index := 1\<rparr>) = 0 \<and>
   PCSPEAKER_CallBack 0 power_on = Some (Inr (power_on\<lparr>last_index := 0\<rparr>, [], []))"
proof -
  have u: "used (power_on\<lparr>last_index := 1\<rparr>) = 0"
    by (simp add: power_on_eq spkr_static_def)
  from render_nothing_still_drains [of power_on] ForwardPIT_power_on [of 1] u
  have "PCSPEAKER_CallBack 0 power_on =
      Some (Inr (power_on\<lparr>last_index := 1, last_index := 0\<rparr>, [], []))"
    by blast
  with ForwardPIT_power_on [of 1] u show ?thesis by simp
qed

subsection \<open>Mode 3 below the minimum counter\<close>

text \<open>
  C3 as stated fails, in two ways. With the power-on tone running and the output enabled,
  a count of 100, below the minimum of 298, that is loaded in mode 3 at 0.2 ms finds the
  tone in its high half: the engine degrades to mode 6, but the level submitted at the
  call instant is the level submitted last, and no edge enters the log. And after a count
  of 0 was loaded in mode 2, the forward advance with which \<^verbatim>\<open>PCSPEAKER_SetCounter\<close>
  begins does not return: the loop of \<^verbatim>\<open>case 2\<close> adds one tick to \<^verbatim>\<open>passed\<close> for every
  tick it takes away. So the call that should degrade the engine does not return either.
\<close>

theorem degrade_without_edge_counterexample:
  "pit_mode square_running = 3 \<and>
   pit_output_enabled square_running \<and>
   100 < minimum_counter square_running \<and>
   PCSPEAKER_SetCounter 1193182 100 3 (1 / 5) square_running = Some degraded_high \<and>
   pit_mode degraded_high = 6 \<and>
   edge_log square_running = [\<lparr>index = 0, output_level = SPKR_POSITIVE_LEVEL\<rparr>] \<and>
   edge_log degraded_high = [\<lparr>index = 0, output_level = SPKR_POSITIVE_LEVEL\<rparr>] \<and>
   PCSPEAKER_SetCounter 1193182 0 2 0 power_on = Some zero_rate \<and>
   100 < minimum_counter zero_rate \<and>
   PCSPEAKER_SetCounter 1193182 100 3 (1 / 2) zero_rate = None"
proof -
  have d: "degraded_high =
      square_running\<lparr>last_index := 1 / 5, pit_index := 1 / 5, pit_mode := 6\<rparr>"
    by (simp add: degraded_high_def degraded_high_eq)
  have z: "zero_rate = power_on\<lparr>pit_output_level := SPKR_NEGATIVE_LEVEL,
             pit_half := 500 / 596591, pit_max := 0, pit_mode := 2\<rparr>"
    by (simp add: zero_rate_def zero_rate_eq)
  have a: "pit_mode square_running = 3" "pit_output_enabled square_running"
    "100 < minimum_counter square_running"
    by (simp_all add: square_running_eq power_on_eq spkr_static_def)
  from degraded_high_eq d
  have b: "PCSPEAKER_SetCounter 1193182 100 3 (1 / 5) square_running = Some degraded_high"
    by simp
  have c: "pit_mode degraded_high = 6" by (simp add: d)
  have e: "edge_log square_running = [\<lparr>index = 0, output_level = SPKR_POSITIVE_LEVEL\<rparr>]"
    by (simp add: edge_log_def square_running_eq power_on_eq spkr_static_def
        SPKR_ENTRIES_def take_Suc_conv_app_nth eval_nat_numeral del: replicate_Suc)
  have e': "edge_log degraded_high = [\<lparr>index = 0, output_level = SPKR_POSITIVE_LEVEL\<rparr>]"
    by (simp add: d e)
  from zero_rate_eq z
  have g: "PCSPEAKER_SetCounter 1193182 0 2 0 power_on = Some zero_rate" by simp
  have h: "100 < minimum_counter zero_rate"
    by (simp add: z power_on_eq spkr_static_def)
  have i: "PCSPEAKER_SetCounter 1193182 100 3 (1 / 2) zero_rate = None"
    by (simp add: PCSPEAKER_SetCounter_def zero_rate_stalls)
  from a b c e e' g h i show ?thesis by blast
qed

text \<open>
  C3 (amended). Let \<^verbatim>\<open>PCSPEAKER_SetCounter\<close> be called with mode 3 and a count below
  \<^verbatim>\<open>minimum_counter\<close> while the period of the running mode is positive (\<open>periods_ok\<close>).
  Then the forward advance of the call returns, in \<open>s\<close>, and the call returns early in
  the dummy mode 6 with the output level forced high. One edge at that level is submitted
  at the call instant: it enters the log exactly when the output is enabled, the level
  submitted last was not high and the log is not full. No period is loaded: the active
  and the staged period, their halves and the running index are as the forward advance
  left them. Thereafter any sequence of forward advances returns and changes
  \<open>last_index\<close> only, so that no further edge is emitted while the mode is 6.
\<close>

theorem mode3_below_minimum_degrades:
  assumes "cntr < minimum_counter s0"
    and "log_ok s0"
    and "periods_ok s0"
  shows "\<exists>s s'. ForwardPIT newindex s0 = Some s \<and>
           PCSPEAKER_SetCounter tick_rate cntr 3 newindex s0 = Some s' \<and>
           pit_mode s' = 6 \<and>
           pit_output_level s' = SPKR_POSITIVE_LEVEL \<and>
           edge_log s' =
             (if pit_output_enabled s \<and> previous_output_level s \<noteq> SPKR_POSITIVE_LEVEL \<and>
                 used s \<noteq> SPKR_ENTRIES
              then edge_log s @ [\<lparr>index = newindex, output_level = SPKR_POSITIVE_LEVEL\<rparr>]
              else edge_log s) \<and>
           pit_max s' = pit_max s \<and> pit_half s' = pit_half s \<and>
           pit_new_max s' = pit_new_max s \<and> pit_new_half s' = pit_new_half s \<and>
           pit_index s' = pit_index s \<and>
           (\<forall>ts. forward_all ts s' = Some (s'\<lparr>last_index := last (last_index s' # ts)\<rparr>))"
proof -
  from ForwardPIT_returns [OF assms(3)] obtain s where f: "ForwardPIT newindex s0 = Some s"
    by blast
  let ?s' = "AddPITOutput newindex (s\<lparr>pit_output_level := SPKR_POSITIVE_LEVEL, pit_mode := 6\<rparr>)"
  from ForwardPIT_static [OF f] assms(1) have m: "cntr < minimum_counter s"
    by (simp add: static_part_def)
  from ForwardPIT_log_ok [OF f assms(2)] have ok: "log_ok s" .
  from f m have a: "PCSPEAKER_SetCounter tick_rate cntr 3 newindex s0 = Some ?s'"
    by (simp add: PCSPEAKER_SetCounter_def)
  have d: "pit_mode ?s' = 6" by simp
  from ok have e: "edge_log ?s' =
             (if pit_output_enabled s \<and> previous_output_level s \<noteq> SPKR_POSITIVE_LEVEL \<and>
                 used s \<noteq> SPKR_ENTRIES
              then edge_log s @ [\<lparr>index = newindex, output_level = SPKR_POSITIVE_LEVEL\<rparr>]
              else edge_log s)"
    by (auto simp: edge_log_AddPITOutput)
  from f a d e forward_all_dummy [OF d] show ?thesis
    by (intro exI [of _ s] exI [of _ ?s']) simp
qed

theorem mode3_below_minimum_degrades_witness:
  "100 < minimum_counter square_running \<and>
   log_ok square_running \<and>
   periods_ok square_running \<and>
   ForwardPIT (3 / 5) square_running = Some square_at_35 \<and>
   (\<exists>s'. PCSPEAKER_SetCounter 1193182 100 3 (3 / 5) square_running = Some s' \<and>
      pit_mode s' = 6 \<and>
      pit_output_level s' = SPKR_POSITIVE_LEVEL \<and>
      edge_log s' =
        [\<lparr>index = 0, output_level = SPKR_POSITIVE_LEVEL\<rparr>,
         \<lparr>index = 330000 / 596591, output_level = SPKR_NEGATIVE_LEVEL\<rparr>,
         \<lparr>index = 3 / 5, output_level = SPKR_POSITIVE_LEVEL\<rparr>] \<and>
      pit_max s' = 660000 / 596591 \<and>
      forward_all [7 / 10, 1] s' = Some (s'\<lparr>last_index := 1\<rparr>))"
proof -
  have f: "ForwardPIT (3 / 5) square_running = Some square_at_35"
    by (simp add: square_at_35_eq ForwardPIT_square_running_35)
  have m: "100 < minimum_counter square_running"
    by (simp add: square_running_eq power_on_eq spkr_static_def)
  have s: "pit_output_enabled square_at_35"
    "previous_output_level square_at_35 \<noteq> SPKR_POSITIVE_LEVEL"
    "used square_at_35 \<noteq> SPKR_ENTRIES"
    "pit_max square_at_35 = 660000 / 596591"
    by (simp_all add: square_at_35_eq square_running_eq power_on_eq spkr_static_def level_defs
        SPKR_ENTRIES_def)
  from mode3_below_minimum_degrades
    [OF m log_ok_square_running periods_ok_square_running, of "3 / 5" 1193182] f
  obtain s' where a: "PCSPEAKER_SetCounter 1193182 100 3 (3 / 5) square_running = Some s'"
    and b: "pit_mode s' = 6" "pit_output_level s' = SPKR_POSITIVE_LEVEL"
    and c: "edge_log s' =
             (if pit_output_enabled square_at_35 \<and>
                 previous_output_level square_at_35 \<noteq> SPKR_POSITIVE_LEVEL \<and>
                 used square_at_35 \<noteq> SPKR_ENTRIES
              then edge_log square_at_35 @
                   [\<lparr>index = 3 / 5, output_level = SPKR_POSITIVE_LEVEL\<rparr>]
              else edge_log square_at_35)"
    and d: "pit_max s' = pit_max square_at_35"
    and e: "\<forall>ts. forward_all ts s' = Some (s'\<lparr>last_index := last (last_index s' # ts)\<rparr>)"
    by auto
  from e have "forward_all [7 / 10, 1] s' = Some (s'\<lparr>last_index := last (last_index s' # [7 / 10, 1])\<rparr>)"
    by (rule spec)
  then have e': "forward_all [7 / 10, 1] s' = Some (s'\<lparr>last_index := 1\<rparr>)"
    by (simp del: forward_all.simps)
  from c s have c': "edge_log s' =
        [\<lparr>index = 0, output_level = SPKR_POSITIVE_LEVEL\<rparr>,
         \<lparr>index = 330000 / 596591, output_level = SPKR_NEGATIVE_LEVEL\<rparr>,
         \<lparr>index = 3 / 5, output_level = SPKR_POSITIVE_LEVEL\<rparr>]"
    by (simp add: edge_log_square_at_35)
  from d s have d': "pit_max s' = 660000 / 596591" by simp
  from a b c' d' e' have "\<exists>s'. PCSPEAKER_SetCounter 1193182 100 3 (3 / 5) square_running = Some s' \<and>
      pit_mode s' = 6 \<and>
      pit_output_level s' = SPKR_POSITIVE_LEVEL \<and>
      edge_log s' =
        [\<lparr>index = 0, output_level = SPKR_POSITIVE_LEVEL\<rparr>,
         \<lparr>index = 330000 / 596591, output_level = SPKR_NEGATIVE_LEVEL\<rparr>,
         \<lparr>index = 3 / 5, output_level = SPKR_POSITIVE_LEVEL\<rparr>] \<and>
      pit_max s' = 660000 / 596591 \<and>
      forward_all [7 / 10, 1] s' = Some (s'\<lparr>last_index := 1\<rparr>)"
    by blast
  with f m log_ok_square_running periods_ok_square_running show ?thesis
    by blast
qed

subsection \<open>The strobe of mode 4\<close>



subsection \<open>Time order of the edge log\<close>

text \<open>
  C4 asks that, for control calls at non-decreasing times, the edge log is in
  non-decreasing time order with alternating levels. The code keeps the levels
  alternating but not the order. From start-up: gate and output are enabled at time 0,
  which starts the square wave with the period of 1320 ticks; at time \<open>1 / 10\<close> the
  count 600 is loaded in mode 3, which stages a period shorter than the running half
  period; the next call comes at time \<open>14 / 25\<close>. Its forward advance crosses the half
  period at \<open>330000 / 596591\<close> and logs the falling edge, reloads the staged period with
  the running index left at the old half period, beyond the new maximum, and logs the
  next rising edge at \<open>300000 / 596591\<close>, before the falling edge.
\<close>

theorem shortened_period_logs_edge_in_the_past:
  "PCSPEAKER_SetType True True 0 power_on = Some square_running \<and>
   PCSPEAKER_SetCounter 1193182 600 3 (1 / 10) square_running = Some retuned \<and>
   PCSPEAKER_SetType True True (14 / 25) retuned = Some retuned_later \<and>
   edge_log retuned_later =
     [\<lparr>index = 0, output_level = SPKR_POSITIVE_LEVEL\<rparr>,
      \<lparr>index = 330000 / 596591, output_level = SPKR_NEGATIVE_LEVEL\<rparr>,
      \<lparr>index = 300000 / 596591, output_level = SPKR_POSITIVE_LEVEL\<rparr>] \<and>
   index (edge_log retuned_later ! 2) < index (edge_log retuned_later ! 1)"
proof -
  have r: "retuned = square_running\<lparr>last_index := 1 / 10, pit_index := 1 / 10,
             pit_new_max := 300000 / 596591, pit_new_half := 150000 / 596591\<rparr>"
    by (simp add: retuned_def retuned_eq)
  have l: "retuned_later = square_running\<lparr>last_index := 14 / 25, pit_index := 852274 / 14914775,
           pit_new_max := 300000 / 596591, pit_new_half := 150000 / 596591,
           pit_max := 300000 / 596591, pit_half := 150000 / 596591,
           entries := (entries square_running)
             [Suc 0 := \<lparr>index = 330000 / 596591, output_level = SPKR_NEGATIVE_LEVEL\<rparr>,
              Suc (Suc 0) := \<lparr>index = 300000 / 596591, output_level = SPKR_POSITIVE_LEVEL\<rparr>],
           used := 3\<rparr>"
    by (simp add: retuned_later_def r retuned_later_eq)
  have e: "edge_log retuned_later =
     [\<lparr>index = 0, output_level = SPKR_POSITIVE_LEVEL\<rparr>,
      \<lparr>index = 330000 / 596591, output_level = SPKR_NEGATIVE_LEVEL\<rparr>,
      \<lparr>index = 300000 / 596591, output_level = SPKR_POSITIVE_LEVEL\<rparr>]"
    by (simp add: l edge_log_def square_running_eq power_on_eq spkr_static_def
        SPKR_ENTRIES_def take_Suc_conv_app_nth eval_nat_numeral del: replicate_Suc)
  have "index (edge_log retuned_later ! 2) < index (edge_log retuned_later ! 1)"
    by (simp add: e)
  moreover from retuned_eq r
  have "PCSPEAKER_SetCounter 1193182 600 3 (1 / 10) square_running = Some retuned"
    by simp
  moreover from retuned_later_eq r l
  have "PCSPEAKER_SetType True True (14 / 25) retuned = Some retuned_later"
    by simp
  ultimately show ?thesis
    using SetType_power_on e by blast
qed

subsection \<open>The number of samples rendered\<close>

text \<open>
  C1 asks that the callback writes \<open>len\<close> samples and that the caller never receives
  fewer. The code writes \<open>len\<close> samples to its stream but, when \<open>len\<close> exceeds the
  capacity of the accumulation buffer, hands only as many samples as the buffer has slots
  to the mixer channel. At 8000 Hz the buffer has 109 slots; for a request of 110
  samples the stream receives 110 samples, and the mixer channel the first 109 of them.
\<close>

theorem render_hands_over_fewer_samples:
  "length (output_buffer power_on) = 109 \<and>
   PCSPEAKER_CallBack 110 power_on =
     Some (Inr (power_on, replicate 110 0, replicate 109 0))"
proof -
  have b: "output_buffer power_on = replicate 109 0" by (simp add: power_on_eq)
  have c: "consume 0 109 (replicate 109 0) 0 [0] = Inr (0, [0] @ replicate (109 - 0) 0)"
    by (rule consume_zeros) simp
  have s: "shift_out 109 109 (replicate 109 0) = Inr (replicate 109 0)"
    by (rule shift_out_zeros) simp
  have z: "zero_rest 0 (replicate 109 0) = replicate 109 0"
    by (rule zero_rest_zeros) simp
  have p: "power_on\<lparr>last_index := 0\<rparr> = power_on"
    by (simp add: power_on_eq spkr_static_def)
  have r: "(0 :: int16) # replicate 109 0 = replicate 110 0"
    by (simp add: replicate_Suc [symmetric] del: replicate_Suc)
  have "PCSPEAKER_CallBack 110 power_on =
     Some (Inr (power_on, replicate 110 0, replicate 109 0))"
    unfolding PCSPEAKER_CallBack_def ForwardPIT_power_on
    using c s z r
    by (simp add: Let_def check_cast_uint16_def power_on_eq spkr_static_def)
  with b show ?thesis by simp
qed

subsection \<open>The square wave of mode 3\<close>




end
